theory Spec2Isabelle
  imports Complex_Main "HOL-Library.Word"
begin

section \<open>Common values\<close>

text \<open>
  An \<open>ArrayBuffer\<close> is a sequence of bytes; node identifiers and authentication data
  are such buffers, compared by value. A JavaScript \<open>Error\<close> is represented by its
  message.
\<close>

type_synonym bytes = "8 word list"

datatype Error = Error string

text \<open>
  A JavaScript \<open>number\<close> where only its truthiness and its identity matter (the
  configured timeout): an integer or \<open>NaN\<close>. The falsy numbers are \<open>0\<close> and \<open>NaN\<close>.
\<close>

datatype number = Number int | NaN

fun truthy :: "number \<Rightarrow> bool" where
  "truthy (Number n) = (n \<noteq> 0)"
| "truthy NaN = False"


section \<open>RequestReplyHelper (RequestReplyHelper.ts)\<close>

text \<open>
  \<open>RequestReplyHelperOptions\<close>: the optional field \<open>timeout\<close>; \<open>None\<close> is an absent
  (undefined) field.
\<close>

record RequestReplyHelperOptions =
  timeout :: "number option"

text \<open>
  \<open>PendingMessage\<close>: the \<open>resolve\<close> and \<open>reject\<close> functions of one promise, named here by
  the number of that promise, and the handle of the timeout armed for it.
\<close>

datatype PendingMessage = PendingMessage (promise: nat) (timeoutHandle: nat)

text \<open>A call of a promise's \<open>resolve\<close> or \<open>reject\<close> function.\<close>

datatype 'r settlement = Resolved 'r | Rejected "Error option"

text \<open>
  The helper's fields \<open>defaultTimeout\<close>, \<open>pending\<close> and \<open>idCounter\<close>, together with the part
  of the runtime the helper acts on: the event loop's armed timeouts (\<open>armed\<close>: handle to
  the message id its callback captured and the delay it was armed with, \<open>nextHandle\<close> the
  next handle \<open>setTimeout\<close> returns), the number of promises created, and the log of
  every call made to a promise's \<open>resolve\<close> or \<open>reject\<close>.
\<close>

record 'r RequestReplyHelper =
  defaultTimeout :: number
  pending :: "nat \<rightharpoonup> PendingMessage"
  idCounter :: nat
  armed :: "nat \<rightharpoonup> nat \<times> number"
  nextHandle :: nat
  promises :: nat
  settled :: "(nat \<times> 'r settlement) list"

text \<open>
  The constructor: \<open>this.defaultTimeout = options.timeout || 30000\<close>. An absent field
  and a falsy number both select 30000.
\<close>

definition new_RequestReplyHelper :: "RequestReplyHelperOptions \<Rightarrow> 'r RequestReplyHelper" where
  "new_RequestReplyHelper options =
     \<lparr> defaultTimeout =
         (case timeout options of
            None \<Rightarrow> Number 30000
          | Some t \<Rightarrow> if truthy t then t else Number 30000),
       pending = Map.empty,
       idCounter = 0,
       armed = Map.empty,
       nextHandle = 0,
       promises = 0,
       settled = [] \<rparr>"

text \<open>
  \<open>this.idCounter++\<close> on a JavaScript number holding a natural number: the sum is exact
  below \<open>2^53\<close>, and at \<open>2^53\<close> adding one gives \<open>2^53\<close> again (the counter, starting at
  0, never passes that value).
\<close>

definition increment :: "nat \<Rightarrow> nat" where
  "increment n = (if n < 2 ^ 53 then n + 1 else n)"

definition releaseId :: "nat \<Rightarrow> 'r RequestReplyHelper \<Rightarrow> 'r RequestReplyHelper" where
  "releaseId i h =
     (case pending h i of
        None \<Rightarrow> h
      | Some p \<Rightarrow>
          h\<lparr> armed := (armed h)(timeoutHandle p := None),
             pending := (pending h)(i := None) \<rparr>)"

text \<open>
  \<open>prepareRequest\<close> returns the message id and the new promise; it stores the promise's
  functions under the id together with a timeout armed for \<open>defaultTimeout\<close>, whose
  callback is \<open>registerError(messageId, new Error('Timed out'))\<close>.
\<close>

definition prepareRequest :: "'r RequestReplyHelper \<Rightarrow> (nat \<times> nat) \<times> 'r RequestReplyHelper" where
  "prepareRequest h =
     (let messageId = idCounter h;
          p = promises h;
          t = nextHandle h
      in ((messageId, p),
          h\<lparr> idCounter := increment (idCounter h),
             promises := Suc p,
             armed := (armed h)(t \<mapsto> (messageId, defaultTimeout h)),
             nextHandle := Suc t,
             pending := (pending h)(messageId \<mapsto> PendingMessage p t) \<rparr>))"

definition registerReply :: "nat \<Rightarrow> 'r \<Rightarrow> 'r RequestReplyHelper \<Rightarrow> 'r RequestReplyHelper" where
  "registerReply i result h =
     (case pending h i of
        None \<Rightarrow> h
      | Some message \<Rightarrow>
          (let h' = releaseId i h
           in h'\<lparr> settled := settled h' @ [(promise message, Resolved result)] \<rparr>))"

definition registerError :: "nat \<Rightarrow> Error option \<Rightarrow> 'r RequestReplyHelper \<Rightarrow> 'r RequestReplyHelper" where
  "registerError i err h =
     (case pending h i of
        None \<Rightarrow> h
      | Some message \<Rightarrow>
          (let h' = releaseId i h
           in h'\<lparr> settled := settled h' @ [(promise message, Rejected err)] \<rparr>))"

text \<open>
  The event loop fires an armed timeout: the timeout leaves the table and its callback
  runs. A handle that is not armed (never returned, cleared or already fired) fires
  nothing.
\<close>

definition timeoutFires :: "nat \<Rightarrow> 'r RequestReplyHelper \<Rightarrow> 'r RequestReplyHelper" where
  "timeoutFires t h =
     (case armed h t of
        None \<Rightarrow> h
      | Some (messageId, delay) \<Rightarrow>
          registerError messageId (Some (Error ''Timed out'')) (h\<lparr> armed := (armed h)(t := None) \<rparr>))"

text \<open>Sequences of calls on one helper, and the pairs its \<open>prepareRequest\<close> calls return.\<close>

datatype 'r call =
    PrepareRequest
  | RegisterReply nat 'r
  | RegisterError nat "Error option"
  | TimeoutFires nat

fun step :: "'r call \<Rightarrow> 'r RequestReplyHelper \<Rightarrow> 'r RequestReplyHelper" where
  "step PrepareRequest h = snd (prepareRequest h)"
| "step (RegisterReply i r) h = registerReply i r h"
| "step (RegisterError i e) h = registerError i e h"
| "step (TimeoutFires t) h = timeoutFires t h"

fun run :: "'r RequestReplyHelper \<Rightarrow> 'r call list \<Rightarrow> 'r RequestReplyHelper" where
  "run h [] = h"
| "run h (c # cs) = run (step c h) cs"

fun returned :: "'r RequestReplyHelper \<Rightarrow> 'r call list \<Rightarrow> (nat \<times> nat) list" where
  "returned h [] = []"
| "returned h (PrepareRequest # cs) = fst (prepareRequest h) # returned (step PrepareRequest h) cs"
| "returned h (c # cs) = returned (step c h) cs"

text \<open>How often the functions of promise \<open>p\<close> have been called.\<close>

definition settlements :: "'r RequestReplyHelper \<Rightarrow> nat \<Rightarrow> nat" where
  "settlements h p = length (filter (\<lambda>e. fst e = p) (settled h))"

text \<open>
  The helper's invariant while at most \<open>2^53 + 1\<close> requests have been prepared: the
  counter is the number of promises created, capped at \<open>2^53\<close>; a pending id is the
  number of its own promise and holds an armed timeout for the default delay; every
  armed timeout belongs to a pending id; and a promise's functions have been called
  once when it was created and is no longer pending, never otherwise.
\<close>

definition helper_inv :: "'r RequestReplyHelper \<Rightarrow> bool" where
  "helper_inv h \<longleftrightarrow>
     idCounter h = min (promises h) (2 ^ 53) \<and>
     (\<forall>i p. pending h i = Some p \<longrightarrow>
        i < promises h \<and> promise p = i \<and> armed h (timeoutHandle p) = Some (i, defaultTimeout h)) \<and>
     (\<forall>t i d. armed h t = Some (i, d) \<longrightarrow>
        t < nextHandle h \<and> (\<exists>p. pending h i = Some p \<and> timeoutHandle p = t)) \<and>
     (\<forall>p. settlements h p = (if p < promises h \<and> pending h p = None then 1 else 0))"

text \<open>What \<open>registerReply\<close> and \<open>registerError\<close> have in common: settling a pending id.\<close>

definition settle :: "nat \<Rightarrow> 'r settlement \<Rightarrow> 'r RequestReplyHelper \<Rightarrow> 'r RequestReplyHelper" where
  "settle i x h = (case pending h i of None \<Rightarrow> h | Some m \<Rightarrow>
      h\<lparr> armed := (armed h)(timeoutHandle m := None), pending := (pending h)(i := None),
         settled := settled h @ [(promise m, x)] \<rparr>)"

text \<open>
  A sequence of calls with a double reply, a timeout and a request left pending, on a
  helper configured with a timeout of 50 ms.
\<close>

definition example_calls :: "unit call list" where
  "example_calls =
     [PrepareRequest, PrepareRequest, PrepareRequest, RegisterReply 0 (), RegisterReply 0 (),
      TimeoutFires 1]"

definition exampleHelper :: "unit RequestReplyHelper" where
  "exampleHelper = new_RequestReplyHelper \<lparr>timeout = Some (Number 50)\<rparr>"

text \<open>\<open>n\<close> calls of \<open>prepareRequest\<close> on a helper constructed without options.\<close>

definition requests :: "nat \<Rightarrow> unit call list" where
  "requests n = replicate n PrepareRequest"

definition defaultHelper :: "unit RequestReplyHelper" where
  "defaultHelper = new_RequestReplyHelper \<lparr>timeout = None\<rparr>"


section \<open>AbstractPeer: the negotiation state machine (transport/AbstractPeer.ts)\<close>

subsection \<open>Frames, replies and collaborators\<close>

datatype State =
    Initial
  | WaitingForHello
  | WaitingForSelectAck
  | WaitingForAuth
  | WaitingForAuthData
  | WaitingForBegin
  | WaitingForSelect
  | WaitingForAuthAck
  | Active

text \<open>
  Modelled from the spec: the enums \<open>DisconnectReason\<close> and \<open>PeerMessageType\<close> are declared
  in files that are not part of the sources; the constructors are the disconnect reasons
  and the closed frame enum the spec lists, which are also the members the code names.
\<close>

datatype DisconnectReason = Manual | NegotiationFailed | AuthReject | PingTimeout | TransportError

datatype PeerMessageType =
    Hello | Select | Auth | AuthData | Ok | Reject | Begin
  | Ping | Pong | Bye
  | NodeSummary | NodeRequest | NodeDetails
  | Data | DataAck | DataReject

text \<open>
  \<open>NodeSummaryMessage\<close>: the sender's own version and a list of \<open>{id, version}\<close>
  summaries, the two fields \<open>Topology.handleNodeSummaryMessage\<close> reads.
\<close>

record NodeSummaryMessage =
  ownVersion :: nat
  summaries :: "(bytes \<times> nat) list"

text \<open>
  A frame is a message type with the payload of that type (\<open>PeerMessage<T>\<close>):
  \<open>HelloMessage\<close> and \<open>SelectMessage\<close> carry \<open>id\<close> and \<open>capabilities\<close>, \<open>AuthMessage\<close> carries
  \<open>method\<close> and \<open>data\<close>, \<open>AuthDataMessage\<close> carries \<open>data\<close>, \<open>NodeRequestMessage\<close> the
  requested ids. The payloads of \<open>NodeDetails\<close>, \<open>Data\<close>, \<open>DataAck\<close> and \<open>DataReject\<close> are
  handled by classes outside the sources and stay opaque.
\<close>

datatype frame =
    HelloFrame bytes "string set"
  | SelectFrame bytes "string set"
  | AuthFrame string bytes
  | AuthDataFrame bytes
  | OkFrame
  | RejectFrame
  | BeginFrame
  | PingFrame
  | PongFrame
  | ByeFrame
  | NodeSummaryFrame NodeSummaryMessage
  | NodeRequestFrame "bytes list"
  | NodeDetailsFrame bytes
  | DataFrame bytes
  | DataAckFrame bytes
  | DataRejectFrame bytes

fun frameType :: "frame \<Rightarrow> PeerMessageType" where
  "frameType (HelloFrame i c) = Hello"
| "frameType (SelectFrame i c) = Select"
| "frameType (AuthFrame m d) = Auth"
| "frameType (AuthDataFrame d) = AuthData"
| "frameType OkFrame = Ok"
| "frameType RejectFrame = Reject"
| "frameType BeginFrame = Begin"
| "frameType PingFrame = Ping"
| "frameType PongFrame = Pong"
| "frameType ByeFrame = Bye"
| "frameType (NodeSummaryFrame m) = NodeSummary"
| "frameType (NodeRequestFrame m) = NodeRequest"
| "frameType (NodeDetailsFrame m) = NodeDetails"
| "frameType (DataFrame m) = Data"
| "frameType (DataAckFrame m) = DataAck"
| "frameType (DataRejectFrame m) = DataReject"

text \<open>
  The replies of authentication flows. The \<open>data\<close> of a server \<open>Data\<close> reply is tested
  with \<open>! reply.data\<close>, which holds for an absent value only (an \<open>ArrayBuffer\<close> is an
  object, truthy whatever its length), so it is an optional buffer.
\<close>

datatype AuthServerReply =
    AuthServerReply_Ok
  | AuthServerReply_Reject
  | AuthServerReply_Data "bytes option"

datatype AuthClientReply =
    AuthClientReply_Data bytes
  | AuthClientReply_Reject

text \<open>
  Flows are objects of the authentication providers; the model names them. A provider
  has an \<open>id\<close> and optionally the functions \<open>createClientFlow\<close> and \<open>createServerFlow\<close>,
  which take the two public security buffers.
\<close>

datatype AuthClientFlow = AuthClientFlow nat

datatype AuthServerFlow = AuthServerFlow nat

datatype AuthContext = AuthContext "bytes option" "bytes option"

record AuthProvider =
  providerId :: string
  createClientFlow :: "(AuthContext \<Rightarrow> AuthClientFlow) option"
  createServerFlow :: "(AuthContext \<Rightarrow> AuthServerFlow) option"

text \<open>
  Modelled from the spec: the authentication registry of the parent is not part of the
  sources. It exposes the ordered list \<open>providers\<close> and the lookup \<open>getProvider\<close>; a peer
  that reads \<open>providers\<close> takes a snapshot of the configured list.
\<close>

record Authentication =
  providers :: "AuthProvider list"
  getProvider :: "string \<Rightarrow> AuthProvider option"

record WithNetwork =
  networkId :: bytes
  authentication :: Authentication

text \<open>How a promise ends: fulfilled, or rejected with a value that may be absent.\<close>

datatype outcome = Fulfilled | RejectedWith "Error option"

text \<open>
  Every call the peer makes on a collaborator, in order: the abstract methods \<open>send\<close>
  and \<open>requestDisconnect\<close> of the transport, the three events, the failure detector, and
  the creation and destruction of authentication flows. Debug output is left out.
\<close>

datatype effect =
    Send frame
  | RequestDisconnect DisconnectReason "Error option"
  | ConnectEvent
  | DisconnectEvent
  | DataEvent frame
  | Heartbeat
  | CreateClientFlow string
  | CreateServerFlow string
  | DestroyClientFlow AuthClientFlow
  | DestroyServerFlow AuthServerFlow

text \<open>
  What the surroundings answer while one step runs: the clock, how the promise of a
  \<open>send\<close> ends, what the operations of the flows resolve to (\<open>Inl\<close>: the promise is
  rejected), and what the failure detector reports.
\<close>

record env =
  now :: int
  sendResult :: "frame \<Rightarrow> outcome"
  initialMessage :: "AuthClientFlow \<Rightarrow> Error + bytes"
  clientReceiveData :: "AuthClientFlow \<Rightarrow> bytes \<Rightarrow> Error + AuthClientReply"
  receiveInitial :: "AuthServerFlow \<Rightarrow> bytes \<Rightarrow> Error + AuthServerReply"
  serverReceiveData :: "AuthServerFlow \<Rightarrow> bytes \<Rightarrow> Error + AuthServerReply"
  detectorFailed :: bool

subsection \<open>The peer\<close>

text \<open>
  The fields of \<open>AbstractPeer\<close> (\<open>peerId\<close> is the field \<open>id\<close>; the field \<open>version\<close> is never
  read or written), the timers and intervals registered with the event loop (\<open>timers\<close>,
  \<open>nextTimer\<close> being the next handle), and the log of calls on collaborators.
\<close>

record AbstractPeer =
  parent :: WithNetwork
  peerId :: bytes
  state :: State
  lastLatencyTime :: int
  latencyValues :: "int list"
  helloTimeout :: "nat option"
  pingSender :: "nat option"
  pingChecker :: "nat option"
  authProviders :: "AuthProvider list option"
  authClientFlow :: "AuthClientFlow option"
  authServerFlow :: "AuthServerFlow option"
  timers :: "nat set"
  nextTimer :: nat
  effects :: "effect list"

text \<open>Modelled from the spec: \<open>noId\<close>, the distinguished identifier for "unknown".\<close>

definition noId :: bytes where
  "noId = []"

definition new_AbstractPeer :: "env \<Rightarrow> WithNetwork \<Rightarrow> AbstractPeer" where
  "new_AbstractPeer e p =
     \<lparr> parent = p,
       peerId = noId,
       state = Initial,
       lastLatencyTime = now e,
       latencyValues = [],
       helloTimeout = None,
       pingSender = None,
       pingChecker = None,
       authProviders = None,
       authClientFlow = None,
       authServerFlow = None,
       timers = {},
       nextTimer = 0,
       effects = [] \<rparr>"

definition connected_peer :: "AbstractPeer \<Rightarrow> bool" where
  "connected_peer s \<longleftrightarrow> state s = Active"

definition localPublicSecurity :: "AbstractPeer \<Rightarrow> bytes option" where
  "localPublicSecurity s = None"

definition remotePublicSecurity :: "AbstractPeer \<Rightarrow> bytes option" where
  "remotePublicSecurity s = None"

text \<open>\<open>setTimeout\<close> and \<open>setInterval\<close> register a timer and return its handle;
  \<open>clearTimeout\<close> and \<open>clearInterval\<close> remove it, and do nothing for \<open>undefined\<close>.\<close>

definition setTimer :: "AbstractPeer \<Rightarrow> nat \<times> AbstractPeer" where
  "setTimer s = (nextTimer s, s\<lparr> timers := insert (nextTimer s) (timers s), nextTimer := Suc (nextTimer s) \<rparr>)"

definition clearTimer :: "nat option \<Rightarrow> AbstractPeer \<Rightarrow> AbstractPeer" where
  "clearTimer h s = (case h of None \<Rightarrow> s | Some t \<Rightarrow> s\<lparr> timers := timers s - {t} \<rparr>)"

definition emit :: "effect \<Rightarrow> AbstractPeer \<Rightarrow> AbstractPeer" where
  "emit x s = s\<lparr> effects := effects s @ [x] \<rparr>"

text \<open>
  The abstract methods. \<open>requestDisconnect\<close> asks the transport to close the link; what
  the transport then does, a call of \<open>handleDisconnect\<close> included, is a later step.
  \<open>send\<close> returns the promise, whose end the surroundings decide.
\<close>

definition requestDisconnect :: "DisconnectReason \<Rightarrow> Error option \<Rightarrow> AbstractPeer \<Rightarrow> AbstractPeer" where
  "requestDisconnect reason err s = emit (RequestDisconnect reason err) s"

definition send :: "env \<Rightarrow> frame \<Rightarrow> AbstractPeer \<Rightarrow> outcome \<times> AbstractPeer" where
  "send e f s = (sendResult e f, emit (Send f) s)"

definition handleDisconnect :: "DisconnectReason \<Rightarrow> Error option \<Rightarrow> AbstractPeer \<Rightarrow> AbstractPeer" where
  "handleDisconnect reason err s =
     (let s1 = clearTimer (helloTimeout s) s;
          s2 = clearTimer (pingSender s1) s1;
          s3 = clearTimer (pingChecker s2) s2;
          wasActive = (state s3 = Active);
          s4 = s3\<lparr> state := Initial \<rparr>
      in if wasActive then emit DisconnectEvent s4 else s4)"

definition queueNegotiationTimeout :: "AbstractPeer \<Rightarrow> AbstractPeer" where
  "queueNegotiationTimeout s =
     (let s1 = (case helloTimeout s of None \<Rightarrow> s | Some t \<Rightarrow> clearTimer (Some t) s);
          (t, s2) = setTimer s1
      in s2\<lparr> helloTimeout := Some t \<rparr>)"

text \<open>\<open>abort(message, error, reason)\<close>; the message is debug output only.\<close>

definition abort :: "Error option \<Rightarrow> DisconnectReason option \<Rightarrow> AbstractPeer \<Rightarrow> AbstractPeer" where
  "abort err reason s =
     (let s1 = clearTimer (helloTimeout s) s;
          r = (case reason of None \<Rightarrow> NegotiationFailed | Some x \<Rightarrow> x)
      in requestDisconnect r err s1)"

text \<open>
  A handler passed to \<open>catch\<close> runs after the synchronous code of the step that called
  \<open>send\<close>; every step below runs its promise continuations to their end, in that order.
\<close>

definition catchAbort :: "outcome \<Rightarrow> AbstractPeer \<Rightarrow> AbstractPeer" where
  "catchAbort r s = (case r of Fulfilled \<Rightarrow> s | RejectedWith err \<Rightarrow> abort err None s)"

definition registerLatencySend :: "env \<Rightarrow> AbstractPeer \<Rightarrow> AbstractPeer" where
  "registerLatencySend e s = s\<lparr> lastLatencyTime := now e \<rparr>"

definition registerLatencyReply :: "env \<Rightarrow> AbstractPeer \<Rightarrow> AbstractPeer" where
  "registerLatencyReply e s =
     (let time = now e;
          s1 = (if length (latencyValues s) > 5
                then s\<lparr> latencyValues := drop 1 (latencyValues s) \<rparr> else s)
      in s1\<lparr> latencyValues := latencyValues s1 @ [time - lastLatencyTime s1] \<rparr>)"

text \<open>The getter \<open>latency\<close>: \<open>Math.floor(sum / length)\<close>, or the error it throws.\<close>

definition latency :: "AbstractPeer \<Rightarrow> Error + int" where
  "latency s =
     (if length (latencyValues s) = 0 then Inl (Error ''Latency unknown'')
      else Inr \<lfloor>real_of_int (sum_list (latencyValues s)) / real (length (latencyValues s))\<rfloor>)"

definition negotiateAsServer :: "env \<Rightarrow> AbstractPeer \<Rightarrow> AbstractPeer" where
  "negotiateAsServer e s =
     (let s1 = s\<lparr> state := WaitingForSelect \<rparr>;
          (r, s2) = send e (HelloFrame (networkId (parent s1)) {}) s1;
          s3 = queueNegotiationTimeout s2
      in catchAbort r s3)"

definition negotiateAsClient :: "env \<Rightarrow> AbstractPeer \<Rightarrow> AbstractPeer" where
  "negotiateAsClient e s =
     (let s1 = registerLatencySend e s;
          s2 = s1\<lparr> state := WaitingForHello \<rparr>
      in queueNegotiationTimeout s2)"

text \<open>The hook \<open>didConnect\<close> has an empty body.\<close>

definition didConnect :: "AbstractPeer \<Rightarrow> AbstractPeer" where
  "didConnect s = s"

definition switchToActive :: "AbstractPeer \<Rightarrow> AbstractPeer" where
  "switchToActive s =
     (let s1 = clearTimer (helloTimeout s) s;
          s2 = s1\<lparr> helloTimeout := None \<rparr>;
          s3 = didConnect s2;
          s4 = s3\<lparr> state := Active \<rparr>;
          s5 = (case authClientFlow s4 of None \<Rightarrow> s4 | Some f \<Rightarrow> emit (DestroyClientFlow f) s4);
          s6 = (case authServerFlow s5 of None \<Rightarrow> s5 | Some f \<Rightarrow> emit (DestroyServerFlow f) s5);
          (c, s7) = setTimer s6;
          s8 = s7\<lparr> pingChecker := Some c \<rparr>;
          (p, s9) = setTimer s8;
          s10 = s9\<lparr> pingSender := Some p \<rparr>
      in emit ConnectEvent s10)"

definition forceConnect :: "bytes \<Rightarrow> AbstractPeer \<Rightarrow> AbstractPeer" where
  "forceConnect i s =
     (let s1 = s\<lparr> peerId := i \<rparr>;
          s2 = s1\<lparr> latencyValues := latencyValues s1 @ [0] \<rparr>
      in switchToActive s2)"

text \<open>Pings: a failed \<open>send\<close> of a ping or pong is debug output only.\<close>

definition sendPing :: "env \<Rightarrow> AbstractPeer \<Rightarrow> AbstractPeer" where
  "sendPing e s = snd (send e PingFrame (registerLatencySend e s))"

definition receivePing :: "env \<Rightarrow> AbstractPeer \<Rightarrow> AbstractPeer" where
  "receivePing e s =
     (let s1 = registerLatencyReply e s;
          s2 = emit Heartbeat s1
      in snd (send e PongFrame s2))"

definition checkFailure :: "env \<Rightarrow> AbstractPeer \<Rightarrow> AbstractPeer" where
  "checkFailure e s =
     (if detectorFailed e
      then requestDisconnect PingTimeout (Some (Error ''Timeout due to no ping'')) s
      else s)"

subsection \<open>Client flow\<close>

definition receiveHello :: "env \<Rightarrow> bytes \<Rightarrow> string set \<Rightarrow> AbstractPeer \<Rightarrow> AbstractPeer" where
  "receiveHello e i caps s =
     (let s1 = s\<lparr> peerId := i \<rparr>;
          capabilities = {};
          s2 = s1\<lparr> state := WaitingForSelectAck \<rparr>;
          s3 = registerLatencySend e s2;
          (r, s4) = send e (SelectFrame (networkId (parent s3)) capabilities) s3;
          s5 = queueNegotiationTimeout s4
      in catchAbort r s5)"

text \<open>
  \<open>pickNextAuthProvider\<close>: the loop removes providers from the front of the peer's list
  until one has \<open>createClientFlow\<close>; \<open>pickLoop\<close> returns that provider and the list left.
\<close>

fun pickLoop :: "AuthProvider list \<Rightarrow> AuthProvider option \<times> AuthProvider list" where
  "pickLoop [] = (None, [])"
| "pickLoop (p # ps) = (if createClientFlow p \<noteq> None then (Some p, ps) else pickLoop ps)"

definition pickNextAuthProvider :: "AbstractPeer \<Rightarrow> AuthProvider option \<times> AbstractPeer" where
  "pickNextAuthProvider s =
     (case authProviders s of
        None \<Rightarrow> (None, s)
      | Some ps \<Rightarrow> (fst (pickLoop ps), s\<lparr> authProviders := Some (snd (pickLoop ps)) \<rparr>))"

definition authContext :: "AbstractPeer \<Rightarrow> AuthContext" where
  "authContext s = AuthContext (localPublicSecurity s) (remotePublicSecurity s)"

text \<open>
  \<open>sendInitialAuth\<close>: the flow is created and \<open>initialMessage()\<close> called, the negotiation
  timeout is queued, and then the asynchronous task goes on with the message or the error.
\<close>

definition sendInitialAuth :: "env \<Rightarrow> AbstractPeer \<Rightarrow> AbstractPeer" where
  "sendInitialAuth e s =
     (let (provider, s1) = pickNextAuthProvider s
      in case (case provider of None \<Rightarrow> None
               | Some p \<Rightarrow> map_option (Pair p) (createClientFlow p)) of
           None \<Rightarrow> abort None (Some AuthReject) s1
         | Some (p, create) \<Rightarrow>
             (let flow = create (authContext s1);
                  s2 = emit (CreateClientFlow (providerId p)) s1;
                  s3 = s2\<lparr> authClientFlow := Some flow \<rparr>;
                  s4 = queueNegotiationTimeout s3
              in case initialMessage e flow of
                   Inl err \<Rightarrow> abort (Some err) None s4
                 | Inr msg \<Rightarrow>
                     (let (r, s5) = send e (AuthFrame (providerId p) msg) s4
                      in catchAbort r s5)))"

definition receiveSelectOK :: "env \<Rightarrow> AbstractPeer \<Rightarrow> AbstractPeer" where
  "receiveSelectOK e s =
     (let s1 = registerLatencyReply e s;
          s2 = s1\<lparr> state := WaitingForAuthAck \<rparr>;
          s3 = s2\<lparr> authProviders := Some (providers (authentication (parent s2))) \<rparr>
      in sendInitialAuth e s3)"

definition receiveAuthOk :: "env \<Rightarrow> AbstractPeer \<Rightarrow> AbstractPeer" where
  "receiveAuthOk e s =
     (let s1 = switchToActive s;
          (r, s2) = send e BeginFrame s1
      in catchAbort r s2)"

definition receiveAuthReject :: "env \<Rightarrow> AbstractPeer \<Rightarrow> AbstractPeer" where
  "receiveAuthReject e s = sendInitialAuth e s"

text \<open>
  \<open>receiveServerAuthData\<close>: without a client flow the task aborts at once, before the
  timeout is queued; otherwise \<open>receiveData\<close> of the flow is called, the timeout is
  queued, and the task goes on with the reply.
\<close>

definition receiveServerAuthData :: "env \<Rightarrow> bytes \<Rightarrow> AbstractPeer \<Rightarrow> AbstractPeer" where
  "receiveServerAuthData e d s =
     (case authClientFlow s of
        None \<Rightarrow> queueNegotiationTimeout (abort None None s)
      | Some flow \<Rightarrow>
          (let s1 = queueNegotiationTimeout s
           in case clientReceiveData e flow d of
                Inl err \<Rightarrow> abort (Some err) None s1
              | Inr (AuthClientReply_Data x) \<Rightarrow>
                  (let (r, s2) = send e (AuthDataFrame x) s1 in catchAbort r s2)
              | Inr AuthClientReply_Reject \<Rightarrow> sendInitialAuth e s1))"

subsection \<open>Server flow\<close>

definition receiveSelect :: "env \<Rightarrow> bytes \<Rightarrow> string set \<Rightarrow> AbstractPeer \<Rightarrow> AbstractPeer" where
  "receiveSelect e i caps s =
     (let s1 = s\<lparr> peerId := i \<rparr>;
          s2 = s1\<lparr> state := WaitingForAuth \<rparr>;
          (r, s3) = send e OkFrame s2;
          s4 = queueNegotiationTimeout s3
      in catchAbort r s4)"

text \<open>
  \<open>handleSendingAuthReply\<close> returns a promise: that of the \<open>send\<close>, or a rejected one.
  (The final \<open>throw\<close> of the source is unreachable: the reply has one of the three types.)
\<close>

definition handleSendingAuthReply :: "env \<Rightarrow> AuthServerReply \<Rightarrow> AbstractPeer \<Rightarrow> outcome \<times> AbstractPeer" where
  "handleSendingAuthReply e reply s =
     (case reply of
        AuthServerReply_Ok \<Rightarrow>
          (let s1 = registerLatencySend e s;
               s2 = s1\<lparr> state := WaitingForBegin \<rparr>
           in send e OkFrame s2)
      | AuthServerReply_Reject \<Rightarrow>
          (let s1 = s\<lparr> state := WaitingForAuth \<rparr>
           in send e RejectFrame s1)
      | AuthServerReply_Data d \<Rightarrow>
          (let s1 = s\<lparr> state := WaitingForAuthData \<rparr>
           in case d of
                None \<Rightarrow> (RejectedWith None, abort None None s1)
              | Some x \<Rightarrow> send e (AuthDataFrame x) s1))"

text \<open>
  \<open>receiveAuth\<close>. The asynchronous task runs up to its first \<open>await\<close>, then
  \<open>queueNegotiationTimeout()\<close> after the task's call runs, then the task goes on. With a
  server flow present the first \<open>await\<close> is that of its \<open>destroy()\<close>; without one the
  task reaches the lookup of the provider at once. \<open>receiveAuthProvider\<close> is the task from
  the lookup on; \<open>sync\<close> says that the outer \<open>queueNegotiationTimeout()\<close> has not run yet.
\<close>

definition receiveAuthProvider :: "env \<Rightarrow> bool \<Rightarrow> string \<Rightarrow> bytes \<Rightarrow> AbstractPeer \<Rightarrow> AbstractPeer" where
  "receiveAuthProvider e sync method d s =
     (case (case getProvider (authentication (parent s)) method of None \<Rightarrow> None
            | Some p \<Rightarrow> map_option (Pair p) (createServerFlow p)) of
        None \<Rightarrow>
          (let (r, s1) = send e RejectFrame s;
               s2 = queueNegotiationTimeout s1;
               s3 = (if sync then queueNegotiationTimeout s2 else s2)
           in catchAbort r s3)
      | Some (p, create) \<Rightarrow>
          (let flow = create (authContext s);
               s1 = emit (CreateServerFlow (providerId p)) s;
               s2 = s1\<lparr> authServerFlow := Some flow \<rparr>;
               s3 = (if sync then queueNegotiationTimeout s2 else s2)
           in case receiveInitial e flow d of
                Inl err \<Rightarrow> abort (Some err) None s3
              | Inr reply \<Rightarrow>
                  (let (r, s4) = handleSendingAuthReply e reply s3
                   in catchAbort r s4)))"

definition receiveAuth :: "env \<Rightarrow> string \<Rightarrow> bytes \<Rightarrow> AbstractPeer \<Rightarrow> AbstractPeer" where
  "receiveAuth e method d s =
     (case authServerFlow s of
        Some old \<Rightarrow>
          receiveAuthProvider e False method d (queueNegotiationTimeout (emit (DestroyServerFlow old) s))
      | None \<Rightarrow> receiveAuthProvider e True method d s)"

definition receiveClientAuthData :: "env \<Rightarrow> bytes \<Rightarrow> AbstractPeer \<Rightarrow> AbstractPeer" where
  "receiveClientAuthData e d s =
     (case authServerFlow s of
        None \<Rightarrow> queueNegotiationTimeout (abort None None s)
      | Some flow \<Rightarrow>
          (let s1 = queueNegotiationTimeout s
           in case serverReceiveData e flow d of
                Inl err \<Rightarrow> abort (Some err) None s1
              | Inr reply \<Rightarrow>
                  (let (r, s2) = handleSendingAuthReply e reply s1
                   in catchAbort r s2)))"

subsection \<open>Routing of incoming frames\<close>

fun receiveData :: "env \<Rightarrow> frame \<Rightarrow> AbstractPeer \<Rightarrow> AbstractPeer" where
  "receiveData e ByeFrame s = requestDisconnect Manual None s"
| "receiveData e PingFrame s = receivePing e s"
| "receiveData e (HelloFrame i caps) s =
     (if state s = WaitingForHello then receiveHello e i caps s else abort None None s)"
| "receiveData e (SelectFrame i caps) s =
     (if state s = WaitingForSelect then receiveSelect e i caps s else abort None None s)"
| "receiveData e (AuthFrame method d) s =
     (if state s = WaitingForAuth then receiveAuth e method d s else abort None None s)"
| "receiveData e (AuthDataFrame d) s =
     (if state s = WaitingForAuthData then receiveClientAuthData e d s
      else if state s = WaitingForAuthAck then receiveServerAuthData e d s
      else abort None None s)"
| "receiveData e BeginFrame s =
     (if state s = WaitingForBegin then switchToActive (registerLatencyReply e s)
      else abort None None s)"
| "receiveData e OkFrame s =
     (if state s = WaitingForSelectAck then receiveSelectOK e s
      else if state s = WaitingForAuthAck then receiveAuthOk e s
      else abort None None s)"
| "receiveData e RejectFrame s =
     (if state s = WaitingForSelectAck then abort None None s
      else if state s = WaitingForAuthAck then receiveAuthReject e s
      else abort None None s)"
| "receiveData e f s = emit (DataEvent f) s"

text \<open>
  The negotiation sequences as the specification lists them, as pairs of the state a
  frame is received in and the frame's type: the server's steps 2, 3, 4 and 6 and the
  client's steps 2 to 7.
\<close>

definition listed :: "State \<Rightarrow> PeerMessageType \<Rightarrow> bool" where
  "listed st ty \<longleftrightarrow>
     (st = WaitingForSelect \<and> ty = Select) \<or>
     (st = WaitingForAuth \<and> ty = Auth) \<or>
     (st = WaitingForAuthData \<and> ty = AuthData) \<or>
     (st = WaitingForBegin \<and> ty = Begin) \<or>
     (st = WaitingForHello \<and> ty = Hello) \<or>
     (st = WaitingForSelectAck \<and> ty = Ok) \<or>
     (st = WaitingForSelectAck \<and> ty = Reject) \<or>
     (st = WaitingForAuthAck \<and> ty = AuthData) \<or>
     (st = WaitingForAuthAck \<and> ty = Ok) \<or>
     (st = WaitingForAuthAck \<and> ty = Reject)"

subsection \<open>Runs of a peer and what they show\<close>

text \<open>
  Surroundings in which the clock shows \<open>t\<close>, every promise of a \<open>send\<close> is fulfilled, a
  client flow has an empty initial message, every flow answers with \<open>Reject\<close> and the
  failure detector reports no failure.
\<close>

definition quiet :: "int \<Rightarrow> env" where
  "quiet t =
     \<lparr> now = t,
       sendResult = (\<lambda>f. Fulfilled),
       initialMessage = (\<lambda>f. Inr []),
       clientReceiveData = (\<lambda>f d. Inr AuthClientReply_Reject),
       receiveInitial = (\<lambda>f d. Inr AuthServerReply_Reject),
       serverReceiveData = (\<lambda>f d. Inr AuthServerReply_Reject),
       detectorFailed = False \<rparr>"

text \<open>A peer receives one \<open>Reject\<close> frame after the other, each with its surroundings.\<close>

fun rejects :: "env list \<Rightarrow> AbstractPeer \<Rightarrow> AbstractPeer" where
  "rejects [] s = s"
| "rejects (e # es) s = rejects es (receiveData e RejectFrame s)"

text \<open>
  Read from the log of calls: the providers for which a client flow was created, how
  often a disconnect for the reason \<open>AuthReject\<close> was requested, and the methods of the
  \<open>Auth\<close> frames sent, each in the order of the calls.
\<close>

fun attempted :: "effect list \<Rightarrow> string list" where
  "attempted [] = []"
| "attempted (CreateClientFlow m # xs) = m # attempted xs"
| "attempted (x # xs) = attempted xs"

fun authRejects :: "effect list \<Rightarrow> nat" where
  "authRejects [] = 0"
| "authRejects (RequestDisconnect AuthReject err # xs) = Suc (authRejects xs)"
| "authRejects (x # xs) = authRejects xs"

fun authMethods :: "effect list \<Rightarrow> string list" where
  "authMethods [] = []"
| "authMethods (Send (AuthFrame m d) # xs) = m # authMethods xs"
| "authMethods (x # xs) = authMethods xs"

text \<open>A provider that has \<open>createClientFlow\<close>.\<close>

abbreviation (input) canCreateClientFlow :: "AuthProvider \<Rightarrow> bool" where
  "canCreateClientFlow p \<equiv> createClientFlow p \<noteq> None"

text \<open>
  The calls \<open>sendInitialAuth\<close> makes on collaborators when it has picked provider \<open>p\<close>:
  the creation of the flow, then, if the initial message is available, the \<open>Auth\<close>
  frame, and a request to disconnect where a promise is rejected.
\<close>

definition tryProvider :: "env \<Rightarrow> AbstractPeer \<Rightarrow> AuthProvider \<Rightarrow> effect list" where
  "tryProvider e s p =
     CreateClientFlow (providerId p) #
     (case createClientFlow p of
        None \<Rightarrow> []
      | Some create \<Rightarrow>
          (case initialMessage e (create (authContext s)) of
             Inl err \<Rightarrow> [RequestDisconnect NegotiationFailed (Some err)]
           | Inr msg \<Rightarrow>
               Send (AuthFrame (providerId p) msg) #
               (case sendResult e (AuthFrame (providerId p) msg) of
                  Fulfilled \<Rightarrow> []
                | RejectedWith x \<Rightarrow> [RequestDisconnect NegotiationFailed x])))"

text \<open>
  Latency events: the peer registers a send or a reply at the given time. \<open>samples\<close> are
  the differences a sequence of events records, given the time of the last send.
\<close>

datatype latency_event = LatencySend int | LatencyReply int

fun latencyStep :: "latency_event \<Rightarrow> AbstractPeer \<Rightarrow> AbstractPeer" where
  "latencyStep (LatencySend t) s = registerLatencySend (quiet t) s"
| "latencyStep (LatencyReply t) s = registerLatencyReply (quiet t) s"

fun latencyRun :: "latency_event list \<Rightarrow> AbstractPeer \<Rightarrow> AbstractPeer" where
  "latencyRun [] s = s"
| "latencyRun (x # xs) s = latencyRun xs (latencyStep x s)"

fun samples :: "int \<Rightarrow> latency_event list \<Rightarrow> int list" where
  "samples l [] = []"
| "samples l (LatencySend t # xs) = samples t xs"
| "samples l (LatencyReply t # xs) = (t - l) # samples l xs"

subsection \<open>Example values\<close>

text \<open>
  A parent with three providers, the first of which cannot create a client flow; a new
  peer of it; the peer as a client that has received \<open>Hello\<close>, then also the \<open>Ok\<close> for its
  \<open>Select\<close>, so that it waits for the answer to its first \<open>Auth\<close>, and then the \<open>Ok\<close> for
  that.
\<close>

definition serverOnly :: AuthProvider where
  "serverOnly = \<lparr> providerId = ''ticket'', createClientFlow = None,
     createServerFlow = Some (\<lambda>c. AuthServerFlow 0) \<rparr>"

definition anonymous :: AuthProvider where
  "anonymous = \<lparr> providerId = ''anonymous'', createClientFlow = Some (\<lambda>c. AuthClientFlow 1),
     createServerFlow = Some (\<lambda>c. AuthServerFlow 1) \<rparr>"

definition sharedSecret :: AuthProvider where
  "sharedSecret = \<lparr> providerId = ''shared-secret'', createClientFlow = Some (\<lambda>c. AuthClientFlow 2),
     createServerFlow = Some (\<lambda>c. AuthServerFlow 2) \<rparr>"

definition exampleParent :: WithNetwork where
  "exampleParent =
     \<lparr> networkId = [1],
       authentication =
         \<lparr> providers = [serverOnly, anonymous, sharedSecret],
           getProvider = (\<lambda>m. find (\<lambda>p. providerId p = m) [serverOnly, anonymous, sharedSecret]) \<rparr> \<rparr>"

definition examplePeer :: AbstractPeer where
  "examplePeer = new_AbstractPeer (quiet 0) exampleParent"

definition clientAwaitingSelectAck :: AbstractPeer where
  "clientAwaitingSelectAck =
     receiveData (quiet 5) (HelloFrame [2] {}) (negotiateAsClient (quiet 0) examplePeer)"

definition clientAwaitingAuthAck :: AbstractPeer where
  "clientAwaitingAuthAck = receiveData (quiet 7) OkFrame clientAwaitingSelectAck"

definition activeClient :: AbstractPeer where
  "activeClient = receiveData (quiet 9) OkFrame clientAwaitingAuthAck"

text \<open>Surroundings in which the promise of every \<open>send\<close> is rejected.\<close>

definition sendFails :: "int \<Rightarrow> env" where
  "sendFails t = (quiet t)\<lparr> sendResult := (\<lambda>f. RejectedWith (Some (Error ''closed''))) \<rparr>"

text \<open>
  A server peer that has sent \<open>Hello\<close> and received \<open>Select\<close>, so that it waits for
  \<open>Auth\<close>, and surroundings in which the server flow answers the initial data with a
  \<open>Data\<close> reply holding the given optional buffer.
\<close>

definition serverAwaitingAuth :: AbstractPeer where
  "serverAwaitingAuth =
     receiveData (quiet 2) (SelectFrame [2] {}) (negotiateAsServer (quiet 0) examplePeer)"

definition dataReply :: "bytes option \<Rightarrow> int \<Rightarrow> env" where
  "dataReply d t = (quiet t)\<lparr> receiveInitial := (\<lambda>f x. Inr (AuthServerReply_Data d)) \<rparr>"

text \<open>
  The server peer after an \<open>Auth\<close> for the provider \<open>anonymous\<close> whose flow answered with
  data: it holds the server flow and waits for \<open>AuthData\<close>.
\<close>

definition serverAwaitingAuthData :: AbstractPeer where
  "serverAwaitingAuthData =
     receiveData (dataReply (Some [7]) 3) (AuthFrame ''anonymous'' []) serverAwaitingAuth"


section \<open>Topology (topology/Topology.ts)\<close>

subsection \<open>Nodes, peers and the state of a topology\<close>

text \<open>
  Modelled from the spec: the class \<open>TopologyNode\<close> is not part of the sources. A node
  has the fields \<open>id\<close>, \<open>version\<close> and \<open>direct\<close>, which the topology reads and writes; its
  routing data (outgoing edges, reachable-via index) is kept opaque in \<open>routes\<close>. Its
  constructor and the methods the topology calls are parameters of the model:
  \<open>removeRouting(peer)\<close> returns whether the routing changed, together with the node as
  it is after the call.
\<close>

record 'r TopologyNode =
  nodeId :: bytes
  version :: nat
  direct :: bool
  routes :: 'r

text \<open>
  A peer as the topology sees it: the object (named by a number) and its \<open>id\<close>.
\<close>

datatype Peer = Peer (peerRef: nat) (remoteId: bytes)

record 'r TopologyNodeOps =
  newTopologyNode :: "bytes \<Rightarrow> 'r TopologyNode"
  removeRouting :: "Peer \<Rightarrow> 'r TopologyNode \<Rightarrow> bool \<times> 'r TopologyNode"
  updateSelf :: "Peer list \<Rightarrow> 'r TopologyNode \<Rightarrow> 'r TopologyNode"

text \<open>
  \<open>PeerDetails\<close>: the peer, the handles of the event subscriptions made for it, and the
  nodes the peer currently sees (the field \<open>nodes\<close>).
\<close>

record PeerDetails =
  peer :: Peer
  subscriptions :: "nat list"
  peerNodes :: "bytes list"

datatype listener = OnData | OnDisconnect

text \<open>
  The maps \<open>nodes\<close> and \<open>peers\<close> are keyed by identifier and keep the order of insertion.
  \<open>self\<close> is the key of the node \<open>this.self\<close>, which is the node stored under the parent's
  network id. \<open>routingDirty\<close> records \<open>routing.markDirty()\<close>. The rest is the part of the
  runtime the topology acts on: the subscriptions registered on the events of peers
  (\<open>listeners\<close>: handle, peer object, event), the armed timeouts (\<open>scheduled\<close>) and the
  frames handed to \<open>peer.send\<close> (\<open>sent\<close>).
\<close>

record 'r Topology =
  endpoint :: bool
  self :: bytes
  nodes :: "(bytes \<times> 'r TopologyNode) list"
  peers :: "(bytes \<times> PeerDetails) list"
  broadcastTimeout :: "nat option"
  routingDirty :: bool
  listeners :: "(nat \<times> nat \<times> listener) list"
  nextListener :: nat
  scheduled :: "nat set"
  nextScheduled :: nat
  sent :: "(nat \<times> frame) list"

text \<open>The constructor; \<open>isEndpoint\<close> is \<open>options.endpoint || false\<close>.\<close>

definition new_Topology :: "'r TopologyNodeOps \<Rightarrow> WithNetwork \<Rightarrow> bool \<Rightarrow> 'r Topology" where
  "new_Topology ops p isEndpoint =
     \<lparr> endpoint = isEndpoint,
       self = networkId p,
       nodes = [(networkId p, (newTopologyNode ops (networkId p))\<lparr> direct := True \<rparr>)],
       peers = [],
       broadcastTimeout = None,
       routingDirty = False,
       listeners = [],
       nextListener = 0,
       scheduled = {},
       nextScheduled = 0,
       sent = [] \<rparr>"

text \<open>\<open>Map.set\<close>: the value of a present key is replaced where it stands, a new key is
  added at the end. \<open>Map.delete\<close> removes the key.\<close>

fun mapSet :: "'k \<Rightarrow> 'v \<Rightarrow> ('k \<times> 'v) list \<Rightarrow> ('k \<times> 'v) list" where
  "mapSet k v [] = [(k, v)]"
| "mapSet k v ((k', v') # m) = (if k' = k then (k, v) # m else (k', v') # mapSet k v m)"

fun mapDelete :: "'k \<Rightarrow> ('k \<times> 'v) list \<Rightarrow> ('k \<times> 'v) list" where
  "mapDelete k [] = []"
| "mapDelete k ((k', v') # m) = (if k' = k then mapDelete k m else (k', v') # mapDelete k m)"

definition getOrCreate :: "'r TopologyNodeOps \<Rightarrow> bytes \<Rightarrow> 'r Topology \<Rightarrow> 'r TopologyNode \<times> 'r Topology" where
  "getOrCreate ops i t =
     (case map_of (nodes t) i of
        Some node \<Rightarrow> (node, t)
      | None \<Rightarrow>
          (let node = newTopologyNode ops i
           in (node, t\<lparr> nodes := mapSet i node (nodes t) \<rparr>)))"

text \<open>An event subscription on a peer, and \<open>handle.unsubscribe()\<close>.\<close>

definition subscribe :: "Peer \<Rightarrow> listener \<Rightarrow> 'r Topology \<Rightarrow> nat \<times> 'r Topology" where
  "subscribe p l t =
     (nextListener t,
      t\<lparr> listeners := listeners t @ [(nextListener t, peerRef p, l)],
         nextListener := Suc (nextListener t) \<rparr>)"

definition unsubscribe :: "nat \<Rightarrow> 'r Topology \<Rightarrow> 'r Topology" where
  "unsubscribe h t = t\<lparr> listeners := filter (\<lambda>x. fst x \<noteq> h) (listeners t) \<rparr>"

text \<open>
  \<open>queueBroadcast\<close>: marks the routing dirty; unless the node is an endpoint, a broadcast
  is already scheduled or there is no peer, it arms the timeout of the broadcast.
\<close>

definition queueBroadcast :: "'r Topology \<Rightarrow> 'r Topology" where
  "queueBroadcast t =
     (let t1 = t\<lparr> routingDirty := True \<rparr>
      in if endpoint t1 then t1
         else if broadcastTimeout t1 \<noteq> None \<or> length (peers t1) = 0 then t1
         else t1\<lparr> scheduled := insert (nextScheduled t1) (scheduled t1),
                 nextScheduled := Suc (nextScheduled t1),
                 broadcastTimeout := Some (nextScheduled t1) \<rparr>)"

text \<open>\<open>this.self.updateSelf(...)\<close> with the peers currently tracked.\<close>

definition updateSelfNode :: "'r TopologyNodeOps \<Rightarrow> 'r Topology \<Rightarrow> 'r Topology" where
  "updateSelfNode ops t =
     (case map_of (nodes t) (self t) of
        None \<Rightarrow> t
      | Some node \<Rightarrow>
          t\<lparr> nodes := mapSet (self t) (updateSelf ops (map (\<lambda>x. peer (snd x)) (peers t)) node) (nodes t) \<rparr>)"

subsection \<open>Adding a peer\<close>

definition addPeer :: "'r TopologyNodeOps \<Rightarrow> Peer \<Rightarrow> 'r Topology \<Rightarrow> 'r Topology" where
  "addPeer ops p t =
     (case map_of (peers t) (remoteId p) of
        Some current \<Rightarrow> t
      | None \<Rightarrow>
          (let (h1, t1) = subscribe p OnData t;
               (h2, t2) = subscribe p OnDisconnect t1;
               peerInfo = \<lparr> peer = p, subscriptions = [h1, h2], peerNodes = [] \<rparr>;
               t3 = t2\<lparr> peers := mapSet (remoteId p) peerInfo (peers t2) \<rparr>;
               (node, t4) = getOrCreate ops (remoteId p) t3;
               t5 = t4\<lparr> nodes := mapSet (remoteId p) (node\<lparr> direct := True \<rparr>) (nodes t4) \<rparr>;
               t6 = updateSelfNode ops t5
           in queueBroadcast t6))"

subsection \<open>Node summaries\<close>

text \<open>
  The loop over the summaries of the message: every summarised node is looked up or
  created and recorded as found, and its id is requested when the local version is
  lower than the summarised one.
\<close>

fun summaryLoop ::
  "'r TopologyNodeOps \<Rightarrow> (bytes \<times> nat) list \<Rightarrow> bytes list \<Rightarrow> bytes set \<Rightarrow> 'r Topology
     \<Rightarrow> bytes list \<times> bytes set \<times> 'r Topology" where
  "summaryLoop ops [] idsToRequest found t = (idsToRequest, found, t)"
| "summaryLoop ops ((i, v) # rest) idsToRequest found t =
     (let (node, t1) = getOrCreate ops i t;
          found1 = insert i found;
          ids1 = (if version node < v then idsToRequest @ [i] else idsToRequest)
      in summaryLoop ops rest ids1 found1 t1)"

text \<open>
  The loop over all nodes: the peer is removed from every node that is not \<open>self\<close>, was
  not found and is not the node of a tracked peer. The result says whether any
  \<open>removeRouting\<close> returned true.
\<close>

fun removalLoop ::
  "'r TopologyNodeOps \<Rightarrow> Peer \<Rightarrow> bytes \<Rightarrow> bytes set \<Rightarrow> (bytes \<times> PeerDetails) list
     \<Rightarrow> (bytes \<times> 'r TopologyNode) list \<Rightarrow> bool \<times> (bytes \<times> 'r TopologyNode) list" where
  "removalLoop ops p selfKey found tracked [] = (False, [])"
| "removalLoop ops p selfKey found tracked ((k, node) # rest) =
     (let (changed, rest') = removalLoop ops p selfKey found tracked rest
      in if k \<noteq> selfKey \<and> nodeId node \<notin> found \<and> map_of tracked (nodeId node) = None
         then (let (c, node') = removeRouting ops p node in (c \<or> changed, (k, node') # rest'))
         else (changed, (k, node) # rest'))"

definition handleNodeSummaryMessage ::
  "'r TopologyNodeOps \<Rightarrow> Peer \<Rightarrow> NodeSummaryMessage \<Rightarrow> 'r Topology \<Rightarrow> 'r Topology" where
  "handleNodeSummaryMessage ops p message t =
     (let (peerNode, t1) = getOrCreate ops (remoteId p) t;
          ids0 = (if version peerNode < ownVersion message then [nodeId peerNode] else []);
          (idsToRequest, found, t2) = summaryLoop ops (summaries message) ids0 {remoteId p} t1;
          (didChangeRouting, nodes') = removalLoop ops p (self t2) found (peers t2) (nodes t2);
          t3 = t2\<lparr> nodes := nodes' \<rparr>;
          t4 = (if didChangeRouting then queueBroadcast t3 else t3)
      in if length idsToRequest = 0 then t4
         else t4\<lparr> sent := sent t4 @ [(peerRef p, NodeRequestFrame idsToRequest)] \<rparr>)"

subsection \<open>Disconnect of a peer\<close>

text \<open>The loop over the nodes the peer saw: nodes still known lose the peer's routing.\<close>

fun forgetLoop :: "'r TopologyNodeOps \<Rightarrow> Peer \<Rightarrow> bytes list \<Rightarrow> 'r Topology \<Rightarrow> 'r Topology" where
  "forgetLoop ops p [] t = t"
| "forgetLoop ops p (i # rest) t =
     (case map_of (nodes t) i of
        None \<Rightarrow> forgetLoop ops p rest t
      | Some node \<Rightarrow>
          forgetLoop ops p rest (t\<lparr> nodes := mapSet i (snd (removeRouting ops p node)) (nodes t) \<rparr>))"

fun unsubscribeAll :: "nat list \<Rightarrow> 'r Topology \<Rightarrow> 'r Topology" where
  "unsubscribeAll [] t = t"
| "unsubscribeAll (h # hs) t = unsubscribeAll hs (unsubscribe h t)"

definition topologyHandleDisconnect :: "'r TopologyNodeOps \<Rightarrow> Peer \<Rightarrow> 'r Topology \<Rightarrow> 'r Topology" where
  "topologyHandleDisconnect ops p t =
     (case map_of (peers t) (remoteId p) of
        None \<Rightarrow> t
      | Some info \<Rightarrow>
          (let t1 = t\<lparr> peers := mapDelete (remoteId p) (peers t) \<rparr>;
               t2 = unsubscribeAll (subscriptions info) t1;
               (peerNode, t3) = getOrCreate ops (remoteId p) t2;
               t4 = t3\<lparr> nodes := mapSet (remoteId p) (peerNode\<lparr> direct := False \<rparr>) (nodes t3) \<rparr>;
               t5 = forgetLoop ops p (peerNodes info) t4;
               t6 = updateSelfNode ops t5
           in queueBroadcast t6))"

subsection \<open>Auxiliary notions\<close>

text \<open>Every node of the map is stored under its own id.\<close>

definition keyed :: "(bytes \<times> 'r TopologyNode) list \<Rightarrow> bool" where
  "keyed m \<longleftrightarrow> (\<forall>(k, n) \<in> set m. nodeId n = k)"

text \<open>
  The node \<open>getOrCreate\<close> returns for an id, and the map of nodes it leaves behind.
\<close>

definition lookup :: "'r TopologyNodeOps \<Rightarrow> 'r Topology \<Rightarrow> bytes \<Rightarrow> 'r TopologyNode" where
  "lookup ops t i = (case map_of (nodes t) i of Some n \<Rightarrow> n | None \<Rightarrow> newTopologyNode ops i)"

definition withNode :: "'r TopologyNodeOps \<Rightarrow> bytes \<Rightarrow> (bytes \<times> 'r TopologyNode) list
    \<Rightarrow> (bytes \<times> 'r TopologyNode) list" where
  "withNode ops i m = (if map_of m i = None then mapSet i (newTopologyNode ops i) m else m)"

subsection \<open>Example values\<close>

text \<open>
  Nodes without routing data: \<open>removeRouting\<close> reports a change and marks the node by
  raising its version; a topology with two tracked peers and one node known only
  through gossip.
\<close>

definition exampleOps :: "unit TopologyNodeOps" where
  "exampleOps =
     \<lparr> newTopologyNode = (\<lambda>i. \<lparr> nodeId = i, version = 0, direct = False, routes = () \<rparr>),
       removeRouting = (\<lambda>p n. (True, n\<lparr> version := version n + 100 \<rparr>)),
       updateSelf = (\<lambda>ps n. n\<lparr> version := version n + 1 \<rparr>) \<rparr>"

definition exampleTopology :: "unit Topology" where
  "exampleTopology =
     (let t1 = addPeer exampleOps (Peer 1 [2]) (new_Topology exampleOps exampleParent False);
          t2 = addPeer exampleOps (Peer 2 [3]) t1;
          t3 = snd (getOrCreate exampleOps [4] t2)
      in snd (getOrCreate exampleOps [5] t3))"

definition exampleSummary :: NodeSummaryMessage where
  "exampleSummary = \<lparr> ownVersion = 1, summaries = [([4], 0), ([6], 2), ([1], 1)] \<rparr>"

section \<open>RequestReplyHelper: invariant and properties\<close>

lemma helper_invI:
  assumes "idCounter h = min (promises h) (2 ^ 53)"
    and "\<And>i p. pending h i = Some p \<Longrightarrow>
          i < promises h \<and> promise p = i \<and> armed h (timeoutHandle p) = Some (i, defaultTimeout h)"
    and "\<And>t i d. armed h t = Some (i, d) \<Longrightarrow>
          t < nextHandle h \<and> (\<exists>p. pending h i = Some p \<and> timeoutHandle p = t)"
    and "\<And>p. settlements h p = (if p < promises h \<and> pending h p = None then 1 else 0)"
  shows "helper_inv h"
  using assms unfolding helper_inv_def by blast

lemma helper_inv_idCounter: "helper_inv h \<Longrightarrow> idCounter h = min (promises h) (2 ^ 53)"
  by (simp add: helper_inv_def)

lemma helper_inv_pending:
  "helper_inv h \<Longrightarrow> pending h i = Some p \<Longrightarrow>
     i < promises h \<and> promise p = i \<and> armed h (timeoutHandle p) = Some (i, defaultTimeout h)"
  unfolding helper_inv_def by blast

lemma helper_inv_armed:
  "helper_inv h \<Longrightarrow> armed h t = Some (i, d) \<Longrightarrow>
     t < nextHandle h \<and> (\<exists>p. pending h i = Some p \<and> timeoutHandle p = t)"
  unfolding helper_inv_def by blast

lemma helper_inv_settlements:
  "helper_inv h \<Longrightarrow> settlements h p = (if p < promises h \<and> pending h p = None then 1 else 0)"
  unfolding helper_inv_def by blast

lemma settlements_append:
  "settlements (h\<lparr>settled := settled h @ [(q, x)]\<rparr>) p = settlements h p + (if q = p then 1 else 0)"
  by (simp add: settlements_def)

lemma helper_inv_new: "helper_inv (new_RequestReplyHelper options)"
  by (simp add: helper_inv_def new_RequestReplyHelper_def settlements_def)

lemma helper_inv_prepareRequest:
  assumes inv: "helper_inv h" and bound: "promises h \<le> 2 ^ 53"
  shows "helper_inv (snd (prepareRequest h))"
proof -
  let ?h = "snd (prepareRequest h)"
  have counter: "idCounter h = promises h"
    using helper_inv_idCounter [OF inv] bound by simp
  have fresh_timer: "armed h (nextHandle h) = None"
    using helper_inv_armed [OF inv, of "nextHandle h"] by (cases "armed h (nextHandle h)") auto
  have fresh_id: "pending h (promises h) = None"
    using helper_inv_pending [OF inv, of "promises h"] by (cases "pending h (promises h)") auto
  have fields:
    "idCounter ?h = min (Suc (promises h)) (2 ^ 53)" "promises ?h = Suc (promises h)"
    "armed ?h = (armed h)(nextHandle h \<mapsto> (promises h, defaultTimeout h))"
    "nextHandle ?h = Suc (nextHandle h)"
    "pending ?h = (pending h)(promises h \<mapsto> PendingMessage (promises h) (nextHandle h))"
    "defaultTimeout ?h = defaultTimeout h" "settled ?h = settled h"
    using bound counter
    by (simp_all add: prepareRequest_def Let_def increment_def)
  show ?thesis
  proof (rule helper_invI)
    show "idCounter ?h = min (promises ?h) (2 ^ 53)" by (simp add: fields)
  next
    fix i p assume "pending ?h i = Some p"
    then consider "i = promises h" "p = PendingMessage (promises h) (nextHandle h)"
      | "i \<noteq> promises h" "pending h i = Some p"
      by (auto simp: fields split: if_splits)
    then show "i < promises ?h \<and> promise p = i \<and>
        armed ?h (timeoutHandle p) = Some (i, defaultTimeout ?h)"
    proof cases
      case 1
      then show ?thesis by (simp add: fields)
    next
      case 2
      from helper_inv_pending [OF inv 2(2)] fresh_timer show ?thesis
        by (auto simp: fields)
    qed
  next
    fix t i d assume "armed ?h t = Some (i, d)"
    then consider "t = nextHandle h" "i = promises h"
      | "t \<noteq> nextHandle h" "armed h t = Some (i, d)"
      by (auto simp: fields split: if_splits)
    then show "t < nextHandle ?h \<and> (\<exists>p. pending ?h i = Some p \<and> timeoutHandle p = t)"
    proof cases
      case 1
      then show ?thesis by (simp add: fields)
    next
      case 2
      from helper_inv_armed [OF inv 2(2)] fresh_id show ?thesis
        by (auto simp: fields)
    qed
  next
    fix p
    have "settlements ?h p = settlements h p"
      by (simp add: settlements_def fields)
    with helper_inv_settlements [OF inv, of p] fresh_id
    show "settlements ?h p = (if p < promises ?h \<and> pending ?h p = None then 1 else 0)"
      by (auto simp: fields less_Suc_eq)
  qed
qed

lemma registerReply_settle: "registerReply i r h = settle i (Resolved r) h"
  by (simp add: registerReply_def settle_def releaseId_def Let_def split: option.splits)

lemma registerError_settle: "registerError i e h = settle i (Rejected e) h"
  by (simp add: registerError_def settle_def releaseId_def Let_def split: option.splits)

lemma helper_inv_settle:
  assumes inv: "helper_inv h"
  shows "helper_inv (settle i x h)"
proof (cases "pending h i")
  case None
  then show ?thesis using inv by (simp add: settle_def)
next
  case (Some m)
  let ?h = "settle i x h"
  from helper_inv_pending [OF inv Some]
  have m: "i < promises h" "promise m = i" "armed h (timeoutHandle m) = Some (i, defaultTimeout h)"
    by simp_all
  have fields:
    "idCounter ?h = idCounter h" "promises ?h = promises h"
    "armed ?h = (armed h)(timeoutHandle m := None)"
    "nextHandle ?h = nextHandle h"
    "pending ?h = (pending h)(i := None)"
    "defaultTimeout ?h = defaultTimeout h" "settled ?h = settled h @ [(i, x)]"
    using Some m by (simp_all add: settle_def)
  show ?thesis
  proof (rule helper_invI)
    show "idCounter ?h = min (promises ?h) (2 ^ 53)"
      using helper_inv_idCounter [OF inv] by (simp add: fields)
  next
    fix j p assume "pending ?h j = Some p"
    then have j: "j \<noteq> i" "pending h j = Some p"
      by (auto simp: fields split: if_splits)
    from helper_inv_pending [OF inv j(2)] m j(1)
    show "j < promises ?h \<and> promise p = j \<and>
        armed ?h (timeoutHandle p) = Some (j, defaultTimeout ?h)"
      by (auto simp: fields)
  next
    fix t j d assume "armed ?h t = Some (j, d)"
    then have t: "t \<noteq> timeoutHandle m" "armed h t = Some (j, d)"
      by (auto simp: fields split: if_splits)
    from helper_inv_armed [OF inv t(2)] obtain p where
      p: "t < nextHandle h" "pending h j = Some p" "timeoutHandle p = t" by blast
    with Some t(1) have "j \<noteq> i" by auto
    with p show "t < nextHandle ?h \<and> (\<exists>p. pending ?h j = Some p \<and> timeoutHandle p = t)"
      by (simp add: fields)
  next
    fix p
    have "settlements ?h p = settlements h p + (if i = p then 1 else 0)"
      by (simp add: settlements_def fields)
    with helper_inv_settlements [OF inv, of p] Some m(1)
    show "settlements ?h p = (if p < promises ?h \<and> pending ?h p = None then 1 else 0)"
      by (auto simp: fields)
  qed
qed

lemma timeoutFires_settle:
  assumes inv: "helper_inv h"
  shows "timeoutFires t h =
    (case armed h t of None \<Rightarrow> h
     | Some (i, d) \<Rightarrow> settle i (Rejected (Some (Error ''Timed out''))) h)"
proof (cases "armed h t")
  case None
  then show ?thesis by (simp add: timeoutFires_def)
next
  case (Some a)
  obtain i d where a: "a = (i, d)" by (cases a)
  from helper_inv_armed [OF inv Some [unfolded a]] obtain p where
    p: "pending h i = Some p" "timeoutHandle p = t" by blast
  then show ?thesis using Some a
    by (simp add: timeoutFires_def registerError_settle settle_def)
qed

lemma helper_inv_step:
  assumes "helper_inv h" and "c = PrepareRequest \<Longrightarrow> promises h \<le> 2 ^ 53"
  shows "helper_inv (step c h)"
proof (cases c)
  case PrepareRequest
  then show ?thesis using assms by (simp add: helper_inv_prepareRequest)
next
  case (RegisterReply i r)
  then show ?thesis using assms by (simp add: registerReply_settle helper_inv_settle)
next
  case (RegisterError i e)
  then show ?thesis using assms by (simp add: registerError_settle helper_inv_settle)
next
  case (TimeoutFires t)
  then show ?thesis using assms
    by (simp add: timeoutFires_settle helper_inv_settle split: option.splits prod.splits)
qed

lemma promises_step:
  "promises (step c h) = promises h + (if c = PrepareRequest then 1 else 0)"
  by (cases c)
     (auto simp: prepareRequest_def Let_def registerReply_def registerError_def
        releaseId_def timeoutFires_def split: option.splits prod.splits)

lemma promises_run: "promises (run h cs) = promises h + count_list cs PrepareRequest"
  by (induction cs arbitrary: h) (simp_all add: promises_step)

lemma helper_inv_run:
  "helper_inv h \<Longrightarrow> promises h + count_list cs PrepareRequest \<le> 2 ^ 53 + 1 \<Longrightarrow>
     helper_inv (run h cs)"
proof (induction cs arbitrary: h)
  case Nil
  then show ?case by simp
next
  case (Cons c cs)
  have 1: "helper_inv (step c h)" using Cons.prems by (intro helper_inv_step) auto
  have 2: "promises (step c h) + count_list cs PrepareRequest \<le> 2 ^ 53 + 1"
    using Cons.prems(2) by (simp add: promises_step split: if_splits)
  from Cons.IH [OF 1 2] show ?case by simp
qed

lemma run_append: "run h (xs @ ys) = run (run h xs) ys"
  by (induction xs arbitrary: h) auto

lemma returned_append: "returned h (xs @ ys) = returned h xs @ returned (run h xs) ys"
proof (induction xs arbitrary: h)
  case Nil
  show ?case by simp
next
  case (Cons c cs)
  then show ?case by (cases c) simp_all
qed

lemma returned_run:
  "helper_inv h \<Longrightarrow> promises h + count_list cs PrepareRequest \<le> 2 ^ 53 + 1 \<Longrightarrow>
     returned h cs = map (\<lambda>i. (i, i)) [promises h ..< promises (run h cs)]"
proof (induction cs arbitrary: h)
  case Nil
  then show ?case by simp
next
  case (Cons c cs)
  have 1: "helper_inv (step c h)" using Cons.prems by (intro helper_inv_step) auto
  have 2: "promises (step c h) + count_list cs PrepareRequest \<le> 2 ^ 53 + 1"
    using Cons.prems(2) by (simp add: promises_step split: if_splits)
  note IH = Cons.IH [OF 1 2]
  show ?case
  proof (cases c)
    case PrepareRequest
    have "promises h \<le> 2 ^ 53" using Cons.prems(2) PrepareRequest by simp
    then have "idCounter h = promises h"
      using helper_inv_idCounter [OF Cons.prems(1)] by simp
    then have s: "fst (prepareRequest h) = (promises h, promises h)"
      by (simp add: prepareRequest_def Let_def)
    have ps: "promises (step c h) = Suc (promises h)"
      using promises_step [of c h] PrepareRequest by simp
    have "promises h < promises (run (step c h) cs)"
      unfolding promises_run ps by simp
    with IH PrepareRequest s ps show ?thesis
      by (simp add: upt_conv_Cons)
  next
    case (RegisterReply i r)
    then have "promises (step c h) = promises h"
      using promises_step [of c h] by simp
    with IH RegisterReply show ?thesis by simp
  next
    case (RegisterError i e)
    then have "promises (step c h) = promises h"
      using promises_step [of c h] by simp
    with IH RegisterError show ?thesis by simp
  next
    case (TimeoutFires t)
    then have "promises (step c h) = promises h"
      using promises_step [of c h] by simp
    with IH TimeoutFires show ?thesis by simp
  qed
qed


text \<open>
  Claim C10. A helper constructed with \<open>options.timeout\<close> equal to 0, or any other falsy
  value (absent, \<open>NaN\<close>), uses the default of 30000 ms: the constructor computes
  \<open>options.timeout || 30000\<close>. No options give the default timeout 0, and the timeout
  armed by \<open>prepareRequest\<close> on a helper configured with 0 has the delay 30000.
\<close>

theorem timeout_zero_uses_default:
  fixes options :: RequestReplyHelperOptions
  defines "h \<equiv> (new_RequestReplyHelper options :: 'r RequestReplyHelper)"
  defines "z \<equiv> (new_RequestReplyHelper \<lparr>timeout = Some (Number 0)\<rparr> :: 'r RequestReplyHelper)"
  shows "defaultTimeout z = Number 30000
   \<and> ((timeout options = None \<or> (\<exists>t. timeout options = Some t \<and> \<not> truthy t))
        \<longrightarrow> defaultTimeout h = Number 30000)
   \<and> defaultTimeout h \<noteq> Number 0
   \<and> armed (snd (prepareRequest z)) 0 = Some (0, Number 30000)"
  by (auto simp: h_def z_def new_RequestReplyHelper_def prepareRequest_def Let_def split: option.splits)

theorem timeout_zero_uses_default_witness:
  "timeout \<lparr>timeout = Some NaN\<rparr> = Some NaN \<and> \<not> truthy NaN
   \<and> defaultTimeout (new_RequestReplyHelper \<lparr>timeout = Some NaN\<rparr> :: unit RequestReplyHelper)
       = Number 30000"
  using timeout_zero_uses_default [where ?'r = unit and options = "\<lparr>timeout = Some NaN\<rparr>"] by simp

lemma defaultTimeout_run: "defaultTimeout (run h cs) = defaultTimeout h"
proof (induction cs arbitrary: h)
  case Nil
  show ?case by simp
next
  case (Cons c cs)
  have "defaultTimeout (step c h) = defaultTimeout h"
    by (cases c)
       (auto simp: prepareRequest_def Let_def registerReply_def registerError_def
          releaseId_def timeoutFires_def split: option.splits prod.splits)
  with Cons.IH [of "step c h"] show ?case by simp
qed

text \<open>
  Claim C3, as amended. For every sequence of \<open>prepareRequest\<close>, \<open>registerReply\<close>,
  \<open>registerError\<close> calls and timeout firings on a new helper in which \<open>prepareRequest\<close> is
  called at most \<open>2^53 + 1\<close> times (the ids \<open>0\<close> to \<open>2^53\<close>, which the counter reaches
  exactly):
  \<^item> every promise returned by \<open>prepareRequest\<close> is either still pending under its id,
    not settled and with its timeout armed for the configured delay, or it is no longer
    pending and its functions were called exactly once;
  \<^item> the ids returned are strictly increasing, and the id a \<open>prepareRequest\<close> returns
    is not pending at the moment of the call;
  \<^item> \<open>registerReply\<close> and \<open>registerError\<close> with an id that is not pending leave the
    helper as it is (the model has no failing branch, as the source has no \<open>throw\<close>);
  \<^item> the timeout of a pending request is armed for the configured delay, which is
    \<open>options.timeout\<close> when that is a number other than 0 and \<open>NaN\<close> and 30000 otherwise,
    and rejects its promise with the error \<open>Timed out\<close> when it fires.
\<close>

theorem request_reply_exactly_once:
  fixes calls :: "'r call list" and options :: RequestReplyHelperOptions
  assumes bound: "count_list calls PrepareRequest \<le> 2 ^ 53 + 1"
  defines "h0 \<equiv> new_RequestReplyHelper options"
  defines "h \<equiv> run h0 calls"
  defines "configured \<equiv>
     (case timeout options of None \<Rightarrow> Number 30000 | Some t \<Rightarrow> if truthy t then t else Number 30000)"
  shows
    "(\<forall>(i, p) \<in> set (returned h0 calls).
        (case pending h i of
           None \<Rightarrow> settlements h p = 1
         | Some m \<Rightarrow> promise m = p \<and> settlements h p = 0
              \<and> armed h (timeoutHandle m) = Some (i, configured)))
     \<and> sorted_wrt (<) (map fst (returned h0 calls))
     \<and> (\<forall>before after. calls = before @ PrepareRequest # after \<longrightarrow>
          pending (run h0 before) (fst (fst (prepareRequest (run h0 before)))) = None)
     \<and> (\<forall>i. pending h i = None \<longrightarrow>
          (\<forall>r. registerReply i r h = h) \<and> (\<forall>e. registerError i e h = h))
     \<and> (\<forall>i m. pending h i = Some m \<longrightarrow>
          armed h (timeoutHandle m) = Some (i, configured)
          \<and> pending (timeoutFires (timeoutHandle m) h) i = None
          \<and> settled (timeoutFires (timeoutHandle m) h)
              = settled h @ [(promise m, Rejected (Some (Error ''Timed out'')))])"
proof -
  have inv0: "helper_inv h0" and p0: "promises h0 = 0"
    by (simp_all add: h0_def helper_inv_new) (simp add: new_RequestReplyHelper_def)
  have inv: "helper_inv h"
    using helper_inv_run [OF inv0, of calls] bound p0 by (simp add: h_def)
  have ret: "returned h0 calls = map (\<lambda>i. (i, i)) [0 ..< promises h]"
    using returned_run [OF inv0, of calls] bound p0 by (simp add: h_def)
  have "defaultTimeout h0 = configured"
    by (simp add: h0_def configured_def new_RequestReplyHelper_def)
  then have delay: "defaultTimeout h = configured"
    by (simp add: h_def defaultTimeout_run)
  have A: "\<forall>(i, p) \<in> set (returned h0 calls).
        (case pending h i of
           None \<Rightarrow> settlements h p = 1
         | Some m \<Rightarrow> promise m = p \<and> settlements h p = 0
              \<and> armed h (timeoutHandle m) = Some (i, configured))"
  proof (clarify)
    fix i p assume "(i, p) \<in> set (returned h0 calls)"
    then have ip: "p = i" "i < promises h"
      by (auto simp: ret)
    show "case pending h i of
           None \<Rightarrow> settlements h p = 1
         | Some m \<Rightarrow> promise m = p \<and> settlements h p = 0
              \<and> armed h (timeoutHandle m) = Some (i, configured)"
    proof (cases "pending h i")
      case None
      then show ?thesis using helper_inv_settlements [OF inv, of i] ip by simp
    next
      case (Some m)
      then show ?thesis
        using helper_inv_settlements [OF inv, of i] helper_inv_pending [OF inv Some] ip delay
        by simp
    qed
  qed
  have B: "sorted_wrt (<) (map fst (returned h0 calls))"
    by (simp add: ret comp_def)
  have C: "\<forall>before after. calls = before @ PrepareRequest # after \<longrightarrow>
          pending (run h0 before) (fst (fst (prepareRequest (run h0 before)))) = None"
  proof (intro allI impI)
    fix before after assume "calls = before @ PrepareRequest # after"
    then have b: "count_list before PrepareRequest \<le> 2 ^ 53" using bound by simp
    then have i: "helper_inv (run h0 before)"
      using helper_inv_run [OF inv0, of before] p0 by simp
    have "promises (run h0 before) \<le> 2 ^ 53"
      using b p0 by (simp add: promises_run)
    then have c: "idCounter (run h0 before) = promises (run h0 before)"
      using helper_inv_idCounter [OF i] by simp
    from helper_inv_pending [OF i, of "promises (run h0 before)"]
    have "pending (run h0 before) (promises (run h0 before)) = None"
      by (cases "pending (run h0 before) (promises (run h0 before))") auto
    then show "pending (run h0 before) (fst (fst (prepareRequest (run h0 before)))) = None"
      by (simp add: prepareRequest_def Let_def c)
  qed
  have D: "\<forall>i. pending h i = None \<longrightarrow>
          (\<forall>r. registerReply i r h = h) \<and> (\<forall>e. registerError i e h = h)"
    by (simp add: registerReply_def registerError_def)
  have E: "\<forall>i m. pending h i = Some m \<longrightarrow>
          armed h (timeoutHandle m) = Some (i, configured)
          \<and> pending (timeoutFires (timeoutHandle m) h) i = None
          \<and> settled (timeoutFires (timeoutHandle m) h)
              = settled h @ [(promise m, Rejected (Some (Error ''Timed out'')))]"
  proof (intro allI impI)
    fix i m assume pm: "pending h i = Some m"
    from helper_inv_pending [OF inv pm] delay
    have a: "armed h (timeoutHandle m) = Some (i, configured)" by simp
    show "armed h (timeoutHandle m) = Some (i, configured)
          \<and> pending (timeoutFires (timeoutHandle m) h) i = None
          \<and> settled (timeoutFires (timeoutHandle m) h)
              = settled h @ [(promise m, Rejected (Some (Error ''Timed out'')))]"
      using a pm by (simp add: timeoutFires_settle [OF inv] settle_def)
  qed
  from A B C D E show ?thesis by blast
qed

lemmas helper_eval = new_RequestReplyHelper_def prepareRequest_def registerReply_def registerError_def
  releaseId_def timeoutFires_def increment_def settlements_def Let_def

theorem request_reply_exactly_once_witness:
  "count_list example_calls PrepareRequest \<le> 2 ^ 53 + 1
   \<and> timeout \<lparr>timeout = Some (Number 50)\<rparr> = Some (Number 50) \<and> truthy (Number 50)
   \<and> returned exampleHelper example_calls = [(0, 0), (1, 1), (2, 2)]
   \<and> settled (run exampleHelper example_calls)
       = [(0, Resolved ()), (1, Rejected (Some (Error ''Timed out'')))]
   \<and> settlements (run exampleHelper example_calls) 0 = 1
   \<and> settlements (run exampleHelper example_calls) 1 = 1
   \<and> settlements (run exampleHelper example_calls) 2 = 0
   \<and> pending (run exampleHelper example_calls) 0 = None
   \<and> pending (run exampleHelper example_calls) 2 = Some (PendingMessage 2 2)
   \<and> armed (run exampleHelper example_calls) 2 = Some (2, Number 50)
   \<and> settled (timeoutFires 2 (run exampleHelper example_calls))
       = [(0, Resolved ()), (1, Rejected (Some (Error ''Timed out''))),
          (2, Rejected (Some (Error ''Timed out'')))]"
  using request_reply_exactly_once [of example_calls "\<lparr>timeout = Some (Number 50)\<rparr>"]
  by (simp add: example_calls_def exampleHelper_def helper_eval)

text \<open>
  Beyond that number of requests the claim fails. After \<open>2^53 + 1\<close> calls of
  \<open>prepareRequest\<close> the counter holds \<open>2^53\<close>, where \<open>idCounter++\<close> leaves it: the next call
  returns the id \<open>2^53\<close> a second time, while the request that got it first is still
  pending. The entry of that request is overwritten, so its promise is never settled;
  when its timeout fires, the promise of the later request is rejected instead.
\<close>

lemma requests_Suc: "requests (Suc n) = requests n @ [PrepareRequest]"
  by (simp add: requests_def replicate_append_same)

lemma run_requests:
  "n \<le> 2 ^ 53 + 1 \<Longrightarrow>
   run defaultHelper (requests n) =
     \<lparr> defaultTimeout = Number 30000,
       pending = (\<lambda>i. if i < n then Some (PendingMessage i i) else None),
       idCounter = min n (2 ^ 53),
       armed = (\<lambda>t. if t < n then Some (t, Number 30000) else None),
       nextHandle = n,
       promises = n,
       settled = [] \<rparr>"
proof (induction n)
  case 0
  show ?case by (simp add: requests_def defaultHelper_def new_RequestReplyHelper_def)
next
  case (Suc n)
  then have n: "n \<le> 2 ^ 53" by simp
  have "run defaultHelper (requests (Suc n)) = snd (prepareRequest (run defaultHelper (requests n)))"
    by (simp add: requests_Suc run_append)
  also have "\<dots> =
     \<lparr> defaultTimeout = Number 30000,
       pending = (\<lambda>i. if i < Suc n then Some (PendingMessage i i) else None),
       idCounter = min (Suc n) (2 ^ 53),
       armed = (\<lambda>t. if t < Suc n then Some (t, Number 30000) else None),
       nextHandle = Suc n,
       promises = Suc n,
       settled = [] \<rparr>"
    using n Suc.IH by (auto simp: prepareRequest_def Let_def increment_def fun_eq_iff)
  finally show ?case .
qed

lemma returned_requests:
  "n \<le> 2 ^ 53 + 1 \<Longrightarrow> returned defaultHelper (requests n) = map (\<lambda>i. (i, i)) [0 ..< n]"
proof (induction n)
  case 0
  show ?case by (simp add: requests_def)
next
  case (Suc n)
  then have n: "n \<le> 2 ^ 53" by simp
  then show ?case
    using Suc.IH by (simp add: requests_Suc returned_append run_requests prepareRequest_def Let_def)
qed

lemma id_reused:
  assumes "n = 2 ^ 53"
  shows "last (butlast (returned defaultHelper (requests (n + 2)))) = (n, n)
   \<and> last (returned defaultHelper (requests (n + 2))) = (n, n + 1)
   \<and> \<not> sorted_wrt (<) (map fst (returned defaultHelper (requests (n + 2))))
   \<and> pending (run defaultHelper (requests (n + 1))) n = Some (PendingMessage n n)
   \<and> fst (prepareRequest (run defaultHelper (requests (n + 1)))) = (n, n + 1)
   \<and> pending (run defaultHelper (requests (n + 2))) n = Some (PendingMessage (n + 1) (n + 1))
   \<and> settlements (run defaultHelper (requests (n + 2))) n = 0
   \<and> settled (timeoutFires n (run defaultHelper (requests (n + 2))))
       = [(n + 1, Rejected (Some (Error ''Timed out'')))]
   \<and> pending (timeoutFires n (run defaultHelper (requests (n + 2)))) n = None"
proof -
  have le: "n + 1 \<le> 2 ^ 53 + 1" and m: "min (n + 1) (2 ^ 53) = n"
    using assms by simp_all
  have r1: "run defaultHelper (requests (n + 1)) =
     \<lparr> defaultTimeout = Number 30000,
       pending = (\<lambda>i. if i < n + 1 then Some (PendingMessage i i) else None),
       idCounter = n,
       armed = (\<lambda>t. if t < n + 1 then Some (t, Number 30000) else None),
       nextHandle = n + 1,
       promises = n + 1,
       settled = [] \<rparr>"
    unfolding run_requests [OF le] m ..
  have split: "requests (n + 2) = requests (n + 1) @ [PrepareRequest]"
    using requests_Suc [of "n + 1"] by simp
  have r2: "run defaultHelper (requests (n + 2))
      = snd (prepareRequest (run defaultHelper (requests (n + 1))))"
    unfolding split run_append by simp
  have next_id: "fst (prepareRequest (run defaultHelper (requests (n + 1)))) = (n, n + 1)"
    unfolding r1 by (simp add: prepareRequest_def Let_def)
  have "returned defaultHelper (requests (n + 2))
      = returned defaultHelper (requests (n + 1)) @ [(n, n + 1)]"
    by (simp only: split returned_append returned.simps next_id)
  also have "returned defaultHelper (requests (n + 1)) = map (\<lambda>i. (i, i)) [0 ..< n + 1]"
    by (rule returned_requests [OF le])
  also have "map (\<lambda>i. (i, i)) [0 ..< n + 1] = map (\<lambda>i. (i, i)) [0 ..< n] @ [(n, n)]"
    by simp
  finally have ret: "returned defaultHelper (requests (n + 2))
      = map (\<lambda>i. (i, i)) [0 ..< n] @ [(n, n), (n, n + 1)]"
    by simp
  have ids: "map fst (returned defaultHelper (requests (n + 2))) = [0 ..< n] @ [n, n]"
    unfolding ret by (simp add: comp_def)
  have bl: "butlast (map (\<lambda>i. (i, i)) [0 ..< n] @ [(n, n), (n, n + 1)])
      = map (\<lambda>i. (i, i)) [0 ..< n] @ [(n, n)]"
    by (simp add: butlast_append)
  have 1: "last (butlast (returned defaultHelper (requests (n + 2)))) = (n, n)"
    unfolding ret bl by simp
  have 2: "last (returned defaultHelper (requests (n + 2))) = (n, n + 1)"
    unfolding ret by simp
  have 3: "\<not> sorted_wrt (<) (map fst (returned defaultHelper (requests (n + 2))))"
    unfolding ids by (simp add: sorted_wrt_append)
  have 4: "pending (run defaultHelper (requests (n + 1))) n = Some (PendingMessage n n)"
    unfolding r1 by simp
  note 5 = next_id
  have 6: "pending (run defaultHelper (requests (n + 2))) n = Some (PendingMessage (n + 1) (n + 1))"
    unfolding r2 r1 by (simp add: prepareRequest_def Let_def)
  have 7: "settlements (run defaultHelper (requests (n + 2))) n = 0"
    unfolding r2 r1 by (simp add: prepareRequest_def Let_def settlements_def)
  have 8: "settled (timeoutFires n (run defaultHelper (requests (n + 2))))
       = [(n + 1, Rejected (Some (Error ''Timed out'')))]"
    unfolding r2 r1 by (simp add: helper_eval)
  have 9: "pending (timeoutFires n (run defaultHelper (requests (n + 2)))) n = None"
    unfolding r2 r1 by (simp add: helper_eval)
  from 1 2 3 4 5 6 7 8 9 show ?thesis by blast
qed

theorem id_reused_after_2_53_requests:
  "last (butlast (returned defaultHelper (requests (2 ^ 53 + 2)))) = (2 ^ 53, 2 ^ 53)
   \<and> last (returned defaultHelper (requests (2 ^ 53 + 2))) = (2 ^ 53, 2 ^ 53 + 1)
   \<and> \<not> sorted_wrt (<) (map fst (returned defaultHelper (requests (2 ^ 53 + 2))))
   \<and> pending (run defaultHelper (requests (2 ^ 53 + 1))) (2 ^ 53)
       = Some (PendingMessage (2 ^ 53) (2 ^ 53))
   \<and> fst (prepareRequest (run defaultHelper (requests (2 ^ 53 + 1)))) = (2 ^ 53, 2 ^ 53 + 1)
   \<and> pending (run defaultHelper (requests (2 ^ 53 + 2))) (2 ^ 53)
       = Some (PendingMessage (2 ^ 53 + 1) (2 ^ 53 + 1))
   \<and> settlements (run defaultHelper (requests (2 ^ 53 + 2))) (2 ^ 53) = 0
   \<and> settled (timeoutFires (2 ^ 53) (run defaultHelper (requests (2 ^ 53 + 2))))
       = [(2 ^ 53 + 1, Rejected (Some (Error ''Timed out'')))]
   \<and> pending (timeoutFires (2 ^ 53) (run defaultHelper (requests (2 ^ 53 + 2)))) (2 ^ 53) = None"
  by (rule id_reused [OF refl])

section \<open>AbstractPeer: properties\<close>

lemmas peer_prims = emit_def requestDisconnect_def send_def clearTimer_def setTimer_def
  queueNegotiationTimeout_def abort_def catchAbort_def registerLatencySend_def
  registerLatencyReply_def didConnect_def Let_def

lemmas peer_handlers = receiveHello_def receiveSelect_def receiveSelectOK_def receiveAuthOk_def
  receiveAuthReject_def receiveServerAuthData_def receiveClientAuthData_def receiveAuth_def
  receiveAuthProvider_def handleSendingAuthReply_def sendInitialAuth_def pickNextAuthProvider_def
  switchToActive_def receivePing_def negotiateAsClient_def negotiateAsServer_def
  authContext_def localPublicSecurity_def remotePublicSecurity_def handleDisconnect_def

lemmas peer_examples = examplePeer_def exampleParent_def serverOnly_def anonymous_def
  sharedSecret_def clientAwaitingSelectAck_def clientAwaitingAuthAck_def quiet_def sendFails_def
  new_AbstractPeer_def noId_def

lemma abort_eq:
  "abort err reason s =
     s\<lparr> timers := timers s - set_option (helloTimeout s),
        effects := effects s @ [RequestDisconnect (case reason of None \<Rightarrow> NegotiationFailed | Some x \<Rightarrow> x) err] \<rparr>"
  by (cases "helloTimeout s") (simp_all add: abort_def clearTimer_def requestDisconnect_def emit_def Let_def)

lemma queueNegotiationTimeout_eq:
  "queueNegotiationTimeout s =
     s\<lparr> timers := insert (nextTimer s) (timers s - set_option (helloTimeout s)),
        nextTimer := Suc (nextTimer s),
        helloTimeout := Some (nextTimer s) \<rparr>"
  by (cases "helloTimeout s") (simp_all add: queueNegotiationTimeout_def clearTimer_def setTimer_def Let_def)

lemma send_eq: "send e f s = (sendResult e f, s\<lparr> effects := effects s @ [Send f] \<rparr>)"
  by (simp add: send_def emit_def)

lemma catchAbort_eq:
  "catchAbort r s =
     (case r of Fulfilled \<Rightarrow> s
      | RejectedWith err \<Rightarrow>
          s\<lparr> timers := timers s - set_option (helloTimeout s),
             effects := effects s @ [RequestDisconnect NegotiationFailed err] \<rparr>)"
  by (simp add: catchAbort_def abort_eq split: outcome.splits)

lemmas peer_eqs = abort_eq queueNegotiationTimeout_eq send_eq catchAbort_eq emit_def
  requestDisconnect_def registerLatencySend_def Let_def

lemma clientAwaitingAuthAck_fields:
  "state clientAwaitingAuthAck = WaitingForAuthAck"
  "effects clientAwaitingAuthAck =
     [Send (SelectFrame [1] {}), CreateClientFlow ''anonymous'', Send (AuthFrame ''anonymous'' [])]"
  "authClientFlow clientAwaitingAuthAck = Some (AuthClientFlow 1)"
  "authServerFlow clientAwaitingAuthAck = None"
  "helloTimeout clientAwaitingAuthAck = Some 2"
  "timers clientAwaitingAuthAck = {2}"
  "pingSender clientAwaitingAuthAck = None"
  "pingChecker clientAwaitingAuthAck = None"
  "latencyValues clientAwaitingAuthAck = [2]"
  "nextTimer clientAwaitingAuthAck = 3"
  by (simp_all add: peer_examples peer_handlers peer_prims)

subsection \<open>Latency samples\<close>

lemma drop_last_append:
  "drop (length (drop (length xs - n) xs @ ys) - n) (drop (length xs - n) xs @ ys)
     = drop (length (xs @ ys) - n) (xs @ ys)"
  by (cases "length xs \<le> n") (auto simp: drop_append min_def add.commute)

lemma registerLatencyReply_values:
  assumes "length (latencyValues s) \<le> 6"
  shows "latencyValues (registerLatencyReply e s)
     = drop (length (latencyValues s @ [now e - lastLatencyTime s]) - 6)
         (latencyValues s @ [now e - lastLatencyTime s])"
proof -
  have "5 < n \<Longrightarrow> n \<le> 6 \<Longrightarrow> n - 5 = Suc 0" for n :: nat by arith
  with assms show ?thesis by (auto simp: registerLatencyReply_def Let_def)
qed

lemma registerLatencyReply_other:
  "lastLatencyTime (registerLatencyReply e s) = lastLatencyTime s"
  by (simp add: registerLatencyReply_def Let_def)

lemma latencyRun_values:
  "length (latencyValues s) \<le> 6 \<Longrightarrow>
   latencyValues (latencyRun evs s)
     = drop (length (latencyValues s @ samples (lastLatencyTime s) evs) - 6)
         (latencyValues s @ samples (lastLatencyTime s) evs)"
proof (induction evs arbitrary: s)
  case Nil
  then show ?case by simp
next
  case (Cons x evs)
  show ?case
  proof (cases x)
    case (LatencySend t)
    with Cons show ?thesis by (simp add: registerLatencySend_def quiet_def)
  next
    case (LatencyReply t)
    let ?s = "registerLatencyReply (quiet t) s"
    let ?x = "t - lastLatencyTime s"
    have v: "latencyValues ?s = drop (length (latencyValues s @ [?x]) - 6) (latencyValues s @ [?x])"
      using registerLatencyReply_values [OF Cons.prems, of "quiet t"] by (simp add: quiet_def)
    then have len: "length (latencyValues ?s) \<le> 6" by simp
    have "latencyValues (latencyRun (x # evs) s) = latencyValues (latencyRun evs ?s)"
      using LatencyReply by simp
    also have "\<dots> = drop (length (latencyValues ?s @ samples (lastLatencyTime s) evs) - 6)
         (latencyValues ?s @ samples (lastLatencyTime s) evs)"
      using Cons.IH [OF len] by (simp add: registerLatencyReply_other)
    also have "\<dots> = drop (length ((latencyValues s @ [?x]) @ samples (lastLatencyTime s) evs) - 6)
         ((latencyValues s @ [?x]) @ samples (lastLatencyTime s) evs)"
      unfolding v by (rule drop_last_append)
    finally show ?thesis using LatencyReply by simp
  qed
qed

text \<open>
  Claim C8. For every sequence of latency events on a new peer, the stored samples are
  the last six of the samples recorded by \<open>registerLatencyReply\<close> (all of them while
  there are at most six), so never more than six; the getter \<open>latency\<close> returns the sum
  of the stored samples divided by their number, rounded down; and without samples, as
  on a new peer, it yields the error \<open>Latency unknown\<close>.
\<close>

theorem latency_samples_bounded:
  "latencyValues (latencyRun evs (new_AbstractPeer e p))
     = drop (length (samples (now e) evs) - 6) (samples (now e) evs)
   \<and> length (latencyValues (latencyRun evs (new_AbstractPeer e p))) \<le> 6
   \<and> latency s =
       (if latencyValues s = [] then Inl (Error ''Latency unknown'')
        else Inr (sum_list (latencyValues s) div int (length (latencyValues s))))
   \<and> latency (new_AbstractPeer e p) = Inl (Error ''Latency unknown'')"
proof -
  have 0: "latencyValues (new_AbstractPeer e p) = []" "lastLatencyTime (new_AbstractPeer e p) = now e"
    by (simp_all add: new_AbstractPeer_def)
  have 1: "latencyValues (latencyRun evs (new_AbstractPeer e p))
     = drop (length (samples (now e) evs) - 6) (samples (now e) evs)"
    using latencyRun_values [of "new_AbstractPeer e p" evs] by (simp add: 0)
  have 2: "\<lfloor>real_of_int a / real n\<rfloor> = a div int n" for a n
    using floor_divide_of_int_eq [of a "int n", where ?'a = real] by simp
  show ?thesis
    by (simp add: 1 latency_def 2 0)
qed

theorem latency_samples_bounded_witness:
  "latencyValues (latencyRun (map LatencyReply [1, 2, 3, 4, 5, 6, 8]) examplePeer)
     = [2, 3, 4, 5, 6, 8]
   \<and> latency (latencyRun (map LatencyReply [1, 2, 3, 4, 5, 6, 8]) examplePeer) = Inr 4
   \<and> latency examplePeer = Inl (Error ''Latency unknown'')"
proof -
  let ?evs = "map LatencyReply [1, 2, 3, 4, 5, 6, 8]"
  have s: "samples (now (quiet 0)) ?evs = [1, 2, 3, 4, 5, 6, 8]" by (simp add: quiet_def)
  from latency_samples_bounded [of ?evs "quiet 0" exampleParent "latencyRun ?evs examplePeer"]
  show ?thesis
    unfolding s examplePeer_def [symmetric] by simp
qed

subsection \<open>Replies of the server flow\<close>

text \<open>
  Claim C6, as amended. When the server side handles a reply of its flow: \<open>Ok\<close> sends an
  \<open>Ok\<close> frame and sets the state to \<open>WaitingForBegin\<close>; \<open>Reject\<close> sends a \<open>Reject\<close> frame
  and sets the state to \<open>WaitingForAuth\<close>; a \<open>Data\<close> reply that carries a buffer, of any
  length, sends it in an \<open>AuthData\<close> frame and sets the state to \<open>WaitingForAuthData\<close>; a
  \<open>Data\<close> reply without data sets the state to \<open>WaitingForAuthData\<close>, sends no frame,
  clears the negotiation timeout, requests a disconnect for \<open>NegotiationFailed\<close> and
  returns a rejected promise. The state leaves \<open>WaitingForAuthData\<close> when that disconnect
  is handled.
\<close>

theorem server_auth_reply:
  "(let (r, s') = handleSendingAuthReply e AuthServerReply_Ok s
    in r = sendResult e OkFrame \<and> state s' = WaitingForBegin \<and> effects s' = effects s @ [Send OkFrame])
   \<and> (let (r, s') = handleSendingAuthReply e AuthServerReply_Reject s
    in r = sendResult e RejectFrame \<and> state s' = WaitingForAuth \<and> effects s' = effects s @ [Send RejectFrame])
   \<and> (let (r, s') = handleSendingAuthReply e (AuthServerReply_Data (Some d)) s
    in r = sendResult e (AuthDataFrame d) \<and> state s' = WaitingForAuthData
       \<and> effects s' = effects s @ [Send (AuthDataFrame d)])
   \<and> (let (r, s') = handleSendingAuthReply e (AuthServerReply_Data None) s
    in r = RejectedWith None \<and> state s' = WaitingForAuthData
       \<and> effects s' = effects s @ [RequestDisconnect NegotiationFailed None]
       \<and> timers s' = timers s - set_option (helloTimeout s))
   \<and> state (handleDisconnect NegotiationFailed None
        (snd (handleSendingAuthReply e (AuthServerReply_Data None) s))) = Initial"
  by (auto simp: handleSendingAuthReply_def handleDisconnect_def peer_prims split: option.splits)

lemma serverAwaitingAuth_fields:
  "state serverAwaitingAuth = WaitingForAuth"
  "effects serverAwaitingAuth = [Send (HelloFrame [1] {}), Send OkFrame]"
  "authServerFlow serverAwaitingAuth = None"
  "helloTimeout serverAwaitingAuth = Some 1"
  "timers serverAwaitingAuth = {1}"
  "nextTimer serverAwaitingAuth = 2"
  "parent serverAwaitingAuth = exampleParent"
  by (simp_all add: serverAwaitingAuth_def peer_examples receiveSelect_def negotiateAsServer_def peer_eqs)

theorem server_auth_reply_witness:
  "fst (handleSendingAuthReply (quiet 3) (AuthServerReply_Data (Some [7])) serverAwaitingAuth) = Fulfilled
   \<and> state (snd (handleSendingAuthReply (quiet 3) (AuthServerReply_Data (Some [7])) serverAwaitingAuth))
       = WaitingForAuthData
   \<and> effects (snd (handleSendingAuthReply (quiet 3) (AuthServerReply_Data (Some [7])) serverAwaitingAuth))
       = [Send (HelloFrame [1] {}), Send OkFrame, Send (AuthDataFrame [7])]"
  using server_auth_reply [of "quiet 3" serverAwaitingAuth "[7]"]
  by (simp add: serverAwaitingAuth_fields quiet_def split: prod.splits)

text \<open>
  A \<open>Data\<close> reply with a buffer of length zero is sent on like any other and the peer
  waits in \<open>WaitingForAuthData\<close>; after a \<open>Data\<close> reply without data the peer is asked
  to disconnect (by \<open>handleSendingAuthReply\<close> and again by the caller's handler of the
  rejected promise) while its state is \<open>WaitingForAuthData\<close>.
\<close>

theorem empty_auth_data_is_sent:
  "state serverAwaitingAuth = WaitingForAuth
   \<and> effects (receiveData (dataReply (Some []) 3) (AuthFrame ''anonymous'' [5]) serverAwaitingAuth)
       = [Send (HelloFrame [1] {}), Send OkFrame, CreateServerFlow ''anonymous'',
          Send (AuthDataFrame [])]
   \<and> state (receiveData (dataReply (Some []) 3) (AuthFrame ''anonymous'' [5]) serverAwaitingAuth)
       = WaitingForAuthData
   \<and> effects (receiveData (dataReply None 3) (AuthFrame ''anonymous'' [5]) serverAwaitingAuth)
       = [Send (HelloFrame [1] {}), Send OkFrame, CreateServerFlow ''anonymous'',
          RequestDisconnect NegotiationFailed None, RequestDisconnect NegotiationFailed None]
   \<and> state (receiveData (dataReply None 3) (AuthFrame ''anonymous'' [5]) serverAwaitingAuth)
       = WaitingForAuthData"
  by (simp add: serverAwaitingAuth_fields receiveAuth_def receiveAuthProvider_def
        handleSendingAuthReply_def authContext_def localPublicSecurity_def remotePublicSecurity_def
        dataReply_def quiet_def exampleParent_def serverOnly_def anonymous_def sharedSecret_def
        peer_eqs)

subsection \<open>The end of the client negotiation\<close>

lemma switchToActive_fields:
  "state (switchToActive s) = Active"
  "effects (switchToActive s)
     = effects s
       @ (case authClientFlow s of None \<Rightarrow> [] | Some f \<Rightarrow> [DestroyClientFlow f])
       @ (case authServerFlow s of None \<Rightarrow> [] | Some f \<Rightarrow> [DestroyServerFlow f])
       @ [ConnectEvent]"
  "helloTimeout (switchToActive s) = None"
  "authClientFlow (switchToActive s) = authClientFlow s"
  "authServerFlow (switchToActive s) = authServerFlow s"
  by (simp_all add: switchToActive_def peer_prims split: option.splits prod.splits)

lemma catchAbort_fields:
  "state (catchAbort r s) = state s"
  "effects (catchAbort r s)
     = effects s @ (case r of Fulfilled \<Rightarrow> [] | RejectedWith err \<Rightarrow> [RequestDisconnect NegotiationFailed err])"
  by (simp_all add: peer_prims split: option.splits outcome.splits)

text \<open>
  Claim C2, as amended. A client peer that receives \<open>Ok\<close> in \<open>WaitingForAuthAck\<close> first
  switches to \<open>Active\<close>, the connect event being the last call of the switch, and then
  sends \<open>Begin\<close>. When the promise of that \<open>send\<close> is rejected the peer is aborted: a
  disconnect for \<open>NegotiationFailed\<close> is requested. The state is \<open>Active\<close> at the end of
  the step in both cases.
\<close>

theorem auth_ok_switches_then_sends_begin:
  assumes "state s = WaitingForAuthAck"
  shows "receiveData e OkFrame s
       = catchAbort (sendResult e BeginFrame) (emit (Send BeginFrame) (switchToActive s))
     \<and> state (switchToActive s) = Active
     \<and> last (effects (switchToActive s)) = ConnectEvent
     \<and> effects (receiveData e OkFrame s)
         = effects (switchToActive s) @ Send BeginFrame #
             (case sendResult e BeginFrame of
                Fulfilled \<Rightarrow> []
              | RejectedWith err \<Rightarrow> [RequestDisconnect NegotiationFailed err])
     \<and> state (receiveData e OkFrame s) = Active"
proof -
  have 1: "receiveData e OkFrame s
       = catchAbort (sendResult e BeginFrame) (emit (Send BeginFrame) (switchToActive s))"
    using assms by (simp add: receiveAuthOk_def send_def)
  have 2: "state (emit x t) = state t" "effects (emit x t) = effects t @ [x]" for x t
    by (simp_all add: emit_def)
  show ?thesis
    unfolding 1 by (simp add: catchAbort_fields 2 switchToActive_fields)
qed

theorem auth_ok_switches_then_sends_begin_witness:
  "state clientAwaitingAuthAck = WaitingForAuthAck
   \<and> effects (receiveData (quiet 9) OkFrame clientAwaitingAuthAck)
       = effects clientAwaitingAuthAck @
         [DestroyClientFlow (AuthClientFlow 1), ConnectEvent, Send BeginFrame]
   \<and> state (receiveData (quiet 9) OkFrame clientAwaitingAuthAck) = Active"
proof -
  have r: "sendResult (quiet 9) BeginFrame = Fulfilled" by (simp add: quiet_def)
  from auth_ok_switches_then_sends_begin [of clientAwaitingAuthAck "quiet 9", THEN conjunct2]
  show ?thesis
    by (simp add: r clientAwaitingAuthAck_fields switchToActive_fields)
qed

text \<open>
  When \<open>Begin\<close> cannot be sent, the peer that has just become active asks to be
  disconnected.
\<close>

theorem begin_failure_aborts:
  "state clientAwaitingAuthAck = WaitingForAuthAck
   \<and> sendResult (sendFails 9) BeginFrame = RejectedWith (Some (Error ''closed''))
   \<and> effects (receiveData (sendFails 9) OkFrame clientAwaitingAuthAck)
       = effects clientAwaitingAuthAck @
         [DestroyClientFlow (AuthClientFlow 1), ConnectEvent, Send BeginFrame,
          RequestDisconnect NegotiationFailed (Some (Error ''closed''))]"
  by (simp add: clientAwaitingAuthAck_fields receiveAuthOk_def switchToActive_def peer_prims sendFails_def quiet_def)

subsection \<open>Frames outside the negotiation sequences\<close>

text \<open>
  Claim C1, as amended. For every state and every frame of a negotiation type (\<open>Hello\<close>,
  \<open>Select\<close>, \<open>Auth\<close>, \<open>AuthData\<close>, \<open>Begin\<close>, \<open>Ok\<close>, \<open>Reject\<close>): if the pair of state and frame
  type is not one of the listed transitions, \<open>receiveData\<close> aborts the peer, requesting a
  disconnect for \<open>NegotiationFailed\<close>. In every state \<open>Bye\<close> requests a disconnect for
  \<open>Manual\<close>, \<open>Ping\<close> registers a heartbeat and is answered with \<open>Pong\<close>, and a frame of any
  other type is handed to the data event; none of these aborts.
\<close>

theorem unexpected_negotiation_frame_aborts:
  "(frameType f \<in> {Hello, Select, Auth, AuthData, Begin, Ok, Reject}
      \<and> \<not> listed (state s) (frameType f)
     \<longrightarrow> receiveData e f s = abort None None s
         \<and> effects (receiveData e f s) = effects s @ [RequestDisconnect NegotiationFailed None])
   \<and> (frameType f = Bye
     \<longrightarrow> effects (receiveData e f s) = effects s @ [RequestDisconnect Manual None])
   \<and> (frameType f = Ping
     \<longrightarrow> effects (receiveData e f s) = effects s @ [Heartbeat, Send PongFrame])
   \<and> (frameType f \<in> {Pong, NodeSummary, NodeRequest, NodeDetails, Data, DataAck, DataReject}
     \<longrightarrow> effects (receiveData e f s) = effects s @ [DataEvent f])"
  by (cases f) (auto simp: listed_def peer_prims receivePing_def split: option.splits)

theorem unexpected_negotiation_frame_aborts_witness:
  "frameType BeginFrame \<in> {Hello, Select, Auth, AuthData, Begin, Ok, Reject}
   \<and> \<not> listed (state clientAwaitingAuthAck) (frameType BeginFrame)
   \<and> effects (receiveData (quiet 9) BeginFrame clientAwaitingAuthAck)
       = effects clientAwaitingAuthAck @ [RequestDisconnect NegotiationFailed None]
   \<and> effects (receiveData (quiet 9) PingFrame clientAwaitingAuthAck)
       = effects clientAwaitingAuthAck @ [Heartbeat, Send PongFrame]"
  using unexpected_negotiation_frame_aborts [of BeginFrame clientAwaitingAuthAck "quiet 9"]
    unexpected_negotiation_frame_aborts [of PingFrame clientAwaitingAuthAck "quiet 9"]
  by (simp add: clientAwaitingAuthAck_fields listed_def)

text \<open>
  In the state \<open>Initial\<close>, which no listed transition starts from, a \<open>Data\<close> frame is
  handed to the data event and a \<open>Bye\<close> frame requests a disconnect for \<open>Manual\<close>, where an
  abort would request one for \<open>NegotiationFailed\<close>.
\<close>

theorem data_frame_does_not_abort:
  "\<not> listed (state examplePeer) (frameType (DataFrame []))
   \<and> effects (receiveData (quiet 1) (DataFrame []) examplePeer) = [DataEvent (DataFrame [])]
   \<and> \<not> listed (state examplePeer) (frameType ByeFrame)
   \<and> effects (receiveData (quiet 1) ByeFrame examplePeer) = [RequestDisconnect Manual None]
   \<and> effects (abort None None examplePeer) = [RequestDisconnect NegotiationFailed None]"
  by (simp add: peer_examples peer_prims listed_def)

subsection \<open>The order of authentication providers\<close>

lemma attempted_append: "attempted (xs @ ys) = attempted xs @ attempted ys"
  by (induction xs rule: attempted.induct) simp_all

lemma authRejects_append: "authRejects (xs @ ys) = authRejects xs + authRejects ys"
  by (induction xs rule: authRejects.induct) simp_all

lemma authMethods_append: "authMethods (xs @ ys) = authMethods xs @ authMethods ys"
  by (induction xs rule: authMethods.induct) simp_all

lemma pickLoop_filter:
  "fst (pickLoop ps) = (case filter canCreateClientFlow ps of [] \<Rightarrow> None | p # qs \<Rightarrow> Some p)
   \<and> filter canCreateClientFlow (snd (pickLoop ps)) = drop 1 (filter canCreateClientFlow ps)"
  by (induction ps) auto

lemma sendInitialAuth_none:
  assumes "authProviders s = Some ps" and "filter canCreateClientFlow ps = []"
  shows "sendInitialAuth e s =
     abort None (Some AuthReject) (s\<lparr> authProviders := Some (snd (pickLoop ps)) \<rparr>)"
  using assms pickLoop_filter [of ps]
  by (simp add: sendInitialAuth_def pickNextAuthProvider_def)

lemma sendInitialAuth_some:
  assumes "authProviders s = Some ps" and "filter canCreateClientFlow ps = p # qs"
  shows "\<exists>create. createClientFlow p = Some create \<and>
     sendInitialAuth e s =
      (let s1 = s\<lparr> authProviders := Some (snd (pickLoop ps)) \<rparr>;
           flow = create (authContext s1);
           s4 = queueNegotiationTimeout
                 (emit (CreateClientFlow (providerId p)) s1\<lparr> authClientFlow := Some flow \<rparr>)
       in case initialMessage e flow of
            Inl err \<Rightarrow> abort (Some err) None s4
          | Inr msg \<Rightarrow> catchAbort (sendResult e (AuthFrame (providerId p) msg))
                        (emit (Send (AuthFrame (providerId p) msg)) s4))"
proof -
  from assms(2) have "p \<in> set (filter canCreateClientFlow ps)" by simp
  then obtain create where c: "createClientFlow p = Some create" by auto
  from assms pickLoop_filter [of ps] have "fst (pickLoop ps) = Some p" by simp
  with assms(1) c show ?thesis
    by (simp add: sendInitialAuth_def pickNextAuthProvider_def send_def Let_def split: sum.splits)
qed

lemma authContext_eq: "authContext s = AuthContext None None"
  by (simp add: authContext_def localPublicSecurity_def remotePublicSecurity_def)

lemma sendInitialAuth_fields:
  fixes e :: env and s :: AbstractPeer
  assumes ap: "authProviders s = Some ps"
  defines "cs \<equiv> filter canCreateClientFlow ps"
  defines "s' \<equiv> sendInitialAuth e s"
  shows "effects s' = effects s @
           (case cs of [] \<Rightarrow> [RequestDisconnect AuthReject None] | p # qs \<Rightarrow> tryProvider e s p)"
    and "state s' = state s"
    and "parent s' = parent s"
    and "authProviders s' = Some (snd (pickLoop ps))"
    and "authClientFlow s' =
           (case cs of [] \<Rightarrow> authClientFlow s
            | p # qs \<Rightarrow> map_option (\<lambda>create. create (authContext s)) (createClientFlow p))"
proof -
  have "effects s' = effects s @
           (case cs of [] \<Rightarrow> [RequestDisconnect AuthReject None] | p # qs \<Rightarrow> tryProvider e s p)
    \<and> state s' = state s \<and> parent s' = parent s \<and> authProviders s' = Some (snd (pickLoop ps))
    \<and> authClientFlow s' =
           (case cs of [] \<Rightarrow> authClientFlow s
            | p # qs \<Rightarrow> map_option (\<lambda>create. create (authContext s)) (createClientFlow p))"
  proof (cases cs)
    case Nil
    then show ?thesis
      using sendInitialAuth_none [OF ap, of e] by (simp add: cs_def s'_def peer_eqs)
  next
    case (Cons p qs)
    from sendInitialAuth_some [OF ap Cons [unfolded cs_def], of e] obtain create where
      cr: "createClientFlow p = Some create" and
      c: "s' =
      (let s1 = s\<lparr> authProviders := Some (snd (pickLoop ps)) \<rparr>;
           flow = create (authContext s1);
           s4 = queueNegotiationTimeout
                 (emit (CreateClientFlow (providerId p)) s1\<lparr> authClientFlow := Some flow \<rparr>)
       in case initialMessage e flow of
            Inl err \<Rightarrow> abort (Some err) None s4
          | Inr msg \<Rightarrow> catchAbort (sendResult e (AuthFrame (providerId p) msg))
                        (emit (Send (AuthFrame (providerId p) msg)) s4))"
      unfolding s'_def by blast
    show ?thesis
    proof (cases "initialMessage e (create (AuthContext None None))")
      case (Inl err)
      then show ?thesis
        using Cons cr by (simp add: c authContext_eq tryProvider_def peer_eqs)
    next
      case (Inr msg)
      then show ?thesis
        using Cons cr
        by (cases "sendResult e (AuthFrame (providerId p) msg)")
           (simp_all add: c authContext_eq tryProvider_def peer_eqs)
    qed
  qed
  then show "effects s' = effects s @
           (case cs of [] \<Rightarrow> [RequestDisconnect AuthReject None] | p # qs \<Rightarrow> tryProvider e s p)"
    and "state s' = state s" and "parent s' = parent s"
    and "authProviders s' = Some (snd (pickLoop ps))"
    and "authClientFlow s' =
           (case cs of [] \<Rightarrow> authClientFlow s
            | p # qs \<Rightarrow> map_option (\<lambda>create. create (authContext s)) (createClientFlow p))"
    by simp_all
qed

lemma tryProvider_summary:
  "attempted (tryProvider e s p) = [providerId p]"
  "authRejects (tryProvider e s p) = 0"
  "(\<forall>f. \<exists>m. initialMessage e f = Inr m) \<Longrightarrow> canCreateClientFlow p \<Longrightarrow>
     authMethods (tryProvider e s p) = [providerId p]"
proof -
  show "attempted (tryProvider e s p) = [providerId p]"
    by (simp add: tryProvider_def split: option.splits sum.splits outcome.splits)
  show "authRejects (tryProvider e s p) = 0"
    by (simp add: tryProvider_def split: option.splits sum.splits outcome.splits)
  show "authMethods (tryProvider e s p) = [providerId p]"
    if ok: "\<forall>f. \<exists>m. initialMessage e f = Inr m" and cc: "canCreateClientFlow p"
  proof -
    from cc obtain create where cr: "createClientFlow p = Some create" by auto
    from ok obtain m where m: "initialMessage e (create (authContext s)) = Inr m" by blast
    show ?thesis by (simp add: tryProvider_def cr m split: outcome.splits)
  qed
qed


lemma receiveData_Reject_awaiting:
  "state s = WaitingForAuthAck \<Longrightarrow> receiveData e RejectFrame s = sendInitialAuth e s"
  by (simp add: receiveAuthReject_def)

lemma rejects_snoc: "rejects (es @ [x]) s = receiveData x RejectFrame (rejects es s)"
  by (induction es arbitrary: s) simp_all

lemma take_Suc_drop: "take (Suc n) xs = take 1 xs @ take n (drop 1 xs)"
  by (cases xs) simp_all

lemma rejects_summary:
  "state s = WaitingForAuthAck \<Longrightarrow> authProviders s = Some ps \<Longrightarrow>
   attempted (effects (rejects es s))
     = attempted (effects s) @ map providerId (take (length es) (filter canCreateClientFlow ps))
   \<and> authRejects (effects (rejects es s))
     = authRejects (effects s) + (length es - length (filter canCreateClientFlow ps))
   \<and> ((\<forall>x \<in> set es. \<forall>f. \<exists>m. initialMessage x f = Inr m) \<longrightarrow>
        authMethods (effects (rejects es s))
          = authMethods (effects s) @ map providerId (take (length es) (filter canCreateClientFlow ps)))
   \<and> state (rejects es s) = WaitingForAuthAck
   \<and> parent (rejects es s) = parent s
   \<and> (\<exists>ps'. authProviders (rejects es s) = Some ps'
        \<and> filter canCreateClientFlow ps' = drop (length es) (filter canCreateClientFlow ps))"
proof (induction es arbitrary: s ps)
  case Nil
  then show ?case by simp
next
  case (Cons x es)
  let ?cs = "filter canCreateClientFlow ps"
  let ?t = "sendInitialAuth x s"
  note f = sendInitialAuth_fields [OF Cons.prems(2), of x]
  have st: "state ?t = WaitingForAuthAck" using f(2) Cons.prems(1) by simp
  have ap: "authProviders ?t = Some (snd (pickLoop ps))" by (rule f(4))
  have cs': "filter canCreateClientFlow (snd (pickLoop ps)) = drop 1 ?cs"
    using pickLoop_filter [of ps] by simp
  have r: "rejects (x # es) s = rejects es ?t"
    using Cons.prems(1) by (simp add: receiveAuthReject_def)
  have a1: "attempted (effects ?t) = attempted (effects s) @ map providerId (take 1 ?cs)"
    unfolding f(1) by (cases ?cs) (simp_all add: attempted_append tryProvider_summary)
  have a2: "authRejects (effects ?t) = authRejects (effects s) + (1 - length ?cs)"
    unfolding f(1) by (cases ?cs) (simp_all add: authRejects_append tryProvider_summary)
  have a3: "authMethods (effects ?t) = authMethods (effects s) @ map providerId (take 1 ?cs)"
    if "\<forall>f. \<exists>m. initialMessage x f = Inr m"
  proof (cases ?cs)
    case Nil
    then show ?thesis unfolding f(1) by (simp add: authMethods_append)
  next
    case (Cons p qs)
    then have "p \<in> set ?cs" by simp
    then have "canCreateClientFlow p" by simp
    from tryProvider_summary(3) [OF that this, of s] Cons show ?thesis
      unfolding f(1) by (simp add: authMethods_append)
  qed
  note IH = Cons.IH [OF st ap, unfolded cs']
  have n: "(1 - length ?cs) + (length es - length (drop 1 ?cs)) = length (x # es) - length ?cs"
    by (cases ?cs) simp_all
  show ?case
    unfolding r
    using IH a1 a2 a3 n f(3)
    by (auto simp: take_Suc_drop [of "length es"] simp del: take_Suc_Cons)
qed

text \<open>
  Claim C5. A client peer that receives \<open>Ok\<close> in \<open>WaitingForSelectAck\<close> and then any
  number of \<open>Reject\<close> frames creates client flows for the providers of the parent's list
  that have \<open>createClientFlow\<close>, in the order of that list, one with the \<open>Ok\<close> and one
  more with each \<open>Reject\<close>, skipping the providers without \<open>createClientFlow\<close>; where the
  initial messages are available the \<open>Auth\<close> frames sent name these providers in the same
  order; a disconnect for \<open>AuthReject\<close> is requested once for every step that finds no
  provider left, and it is the last call of such a step; the state stays \<open>WaitingForAuthAck\<close>.
\<close>

theorem client_auth_provider_order:
  fixes e :: env and es :: "env list" and s :: AbstractPeer
  assumes st: "state s = WaitingForSelectAck"
  defines "cs \<equiv> filter (\<lambda>p. createClientFlow p \<noteq> None) (providers (authentication (parent s)))"
  defines "s' \<equiv> rejects es (receiveData e OkFrame s)"
  shows "attempted (effects s') = attempted (effects s) @ map providerId (take (Suc (length es)) cs)
     \<and> ((\<forall>x \<in> set (e # es). \<forall>f. \<exists>m. initialMessage x f = Inr m) \<longrightarrow>
          authMethods (effects s') = authMethods (effects s) @ map providerId (take (Suc (length es)) cs))
     \<and> authRejects (effects s') = authRejects (effects s) + (Suc (length es) - length cs)
     \<and> (length cs \<le> length es \<longrightarrow> last (effects s') = RequestDisconnect AuthReject None)
     \<and> state s' = WaitingForAuthAck"
proof -
  let ?s3 = "(registerLatencyReply e s)\<lparr> state := WaitingForAuthAck,
               authProviders := Some (providers (authentication (parent s))) \<rparr>"
  let ?s0 = "receiveData e OkFrame s"
  have s0: "?s0 = sendInitialAuth e ?s3"
    using st by (simp add: receiveSelectOK_def registerLatencyReply_def Let_def)
  have s3: "authProviders ?s3 = Some (providers (authentication (parent s)))"
    "state ?s3 = WaitingForAuthAck" "effects ?s3 = effects s" "parent ?s3 = parent s"
    by (simp_all add: registerLatencyReply_def Let_def)
  note f = sendInitialAuth_fields [OF s3(1), of e, folded s0 cs_def, unfolded s3]
  have st0: "state ?s0 = WaitingForAuthAck" by (rule f(2))
  have cs': "filter canCreateClientFlow (snd (pickLoop (providers (authentication (parent s))))) = drop 1 cs"
    using pickLoop_filter [of "providers (authentication (parent s))"] by (simp add: cs_def)
  note R = rejects_summary [OF st0 f(4), of es, folded s'_def, unfolded cs']
  have a1: "attempted (effects ?s0) = attempted (effects s) @ map providerId (take 1 cs)"
    unfolding f(1) by (cases cs) (simp_all add: attempted_append tryProvider_summary)
  have a2: "authRejects (effects ?s0) = authRejects (effects s) + (1 - length cs)"
    unfolding f(1) by (cases cs) (simp_all add: authRejects_append tryProvider_summary)
  have a3: "authMethods (effects ?s0) = authMethods (effects s) @ map providerId (take 1 cs)"
    if "\<forall>f. \<exists>m. initialMessage e f = Inr m"
  proof (cases cs)
    case Nil
    then show ?thesis unfolding f(1) by (simp add: authMethods_append)
  next
    case (Cons p qs)
    then have "p \<in> set cs" by simp
    then have "canCreateClientFlow p" by (simp add: cs_def)
    from tryProvider_summary(3) [OF that this] Cons show ?thesis
      unfolding f(1) by (simp add: authMethods_append)
  qed
  have n: "(1 - length cs) + (length es - length (drop 1 cs)) = Suc (length es) - length cs"
    by (cases cs) simp_all
  have A: "attempted (effects s') = attempted (effects s) @ map providerId (take (Suc (length es)) cs)"
    using R a1 by (simp add: take_Suc_drop [of "length es"] del: take_Suc_Cons)
  have B: "authMethods (effects s') = authMethods (effects s) @ map providerId (take (Suc (length es)) cs)"
    if "\<forall>x \<in> set (e # es). \<forall>f. \<exists>m. initialMessage x f = Inr m"
    using R a3 that by (simp add: take_Suc_drop [of "length es"] del: take_Suc_Cons)
  have C: "authRejects (effects s') = authRejects (effects s) + (Suc (length es) - length cs)"
    using R a2 n by simp
  have D: "last (effects s') = RequestDisconnect AuthReject None" if le: "length cs \<le> length es"
  proof (cases es rule: rev_cases)
    case Nil
    with le have "cs = []" by simp
    then show ?thesis using Nil f(1) by (simp add: s'_def)
  next
    case (snoc es' x)
    let ?u = "rejects es' ?s0"
    note R' = rejects_summary [OF st0 f(4), of es', unfolded cs']
    from R' obtain ps' where
      u: "state ?u = WaitingForAuthAck" "authProviders ?u = Some ps'"
         "filter canCreateClientFlow ps' = drop (length es') (drop 1 cs)"
      by blast
    have "drop (length es') (drop 1 cs) = []" using le snoc by simp
    with u(3) have e: "filter canCreateClientFlow ps' = []" by (simp only:)
    have "s' = receiveData x RejectFrame ?u"
      by (simp only: s'_def snoc rejects_snoc)
    also have "\<dots> = sendInitialAuth x ?u"
      by (rule receiveData_Reject_awaiting [OF u(1)])
    finally show ?thesis
      using sendInitialAuth_fields(1) [OF u(2), of x] e by simp
  qed
  have E: "state s' = WaitingForAuthAck" using R by simp
  from A B C D E show ?thesis by blast
qed

theorem client_auth_provider_order_witness:
  "state clientAwaitingSelectAck = WaitingForSelectAck
   \<and> map providerId (providers (authentication (parent clientAwaitingSelectAck)))
       = [''ticket'', ''anonymous'', ''shared-secret'']
   \<and> attempted (effects (rejects [quiet 8] (receiveData (quiet 7) OkFrame clientAwaitingSelectAck)))
       = [''anonymous'', ''shared-secret'']
   \<and> authMethods (effects (rejects [quiet 8] (receiveData (quiet 7) OkFrame clientAwaitingSelectAck)))
       = [''anonymous'', ''shared-secret'']
   \<and> authRejects (effects (rejects [quiet 8] (receiveData (quiet 7) OkFrame clientAwaitingSelectAck))) = 0
   \<and> authRejects (effects (rejects [quiet 8, quiet 9] (receiveData (quiet 7) OkFrame clientAwaitingSelectAck))) = 1
   \<and> last (effects (rejects [quiet 8, quiet 9] (receiveData (quiet 7) OkFrame clientAwaitingSelectAck)))
       = RequestDisconnect AuthReject None"
proof -
  have st: "state clientAwaitingSelectAck = WaitingForSelectAck"
    and pa: "parent clientAwaitingSelectAck = exampleParent"
    and ef: "effects clientAwaitingSelectAck = [Send (SelectFrame [1] {})]"
    by (simp_all add: clientAwaitingSelectAck_def examplePeer_def negotiateAsClient_def
          receiveHello_def new_AbstractPeer_def quiet_def peer_eqs exampleParent_def)
  have ok: "\<forall>x \<in> set (quiet 7 # [quiet 8]). \<forall>f. \<exists>m. initialMessage x f = Inr m"
    by (simp add: quiet_def)
  from client_auth_provider_order [OF st, of "[quiet 8]" "quiet 7"] ok
       client_auth_provider_order [OF st, of "[quiet 8, quiet 9]" "quiet 7"]
  show ?thesis
    unfolding pa ef st
    by (simp add: exampleParent_def serverOnly_def anonymous_def sharedSecret_def)
qed


section \<open>Topology: properties\<close>

subsection \<open>Maps in insertion order\<close>

lemma map_of_mapSet: "map_of (mapSet k v m) = (map_of m)(k \<mapsto> v)"
  by (induction m) (auto simp: fun_eq_iff)

lemma set_mapSet: "set (mapSet k v m) \<subseteq> insert (k, v) (set m)"
  by (induction m) (auto split: if_splits)

lemma map_of_mapDelete: "map_of (mapDelete k m) = (map_of m)(k := None)"
  by (induction m) (auto simp: fun_eq_iff)

lemma keyed_mapSet: "keyed m \<Longrightarrow> nodeId n = k \<Longrightarrow> keyed (mapSet k n m)"
  using set_mapSet [of k n m] by (auto simp: keyed_def)

lemma keyed_map_of: "keyed m \<Longrightarrow> map_of m k = Some n \<Longrightarrow> nodeId n = k"
  by (auto simp: keyed_def dest: map_of_SomeD)

subsection \<open>Looking up or creating a node\<close>

lemma getOrCreate_eq:
  "getOrCreate ops i t = (lookup ops t i, t\<lparr> nodes := withNode ops i (nodes t) \<rparr>)"
  by (simp add: getOrCreate_def lookup_def withNode_def Let_def split: option.splits)

lemma withNode_map_of:
  "map_of (withNode ops i m) = (map_of m)(i \<mapsto> (case map_of m i of Some n \<Rightarrow> n | None \<Rightarrow> newTopologyNode ops i))"
  by (auto simp: withNode_def map_of_mapSet fun_eq_iff split: option.splits)

lemma withNode_keyed:
  assumes "\<And>i. nodeId (newTopologyNode ops i) = i" and "keyed m"
  shows "keyed (withNode ops i m)"
  using assms by (simp add: withNode_def keyed_mapSet)

lemma lookup_withNode:
  "lookup ops (t\<lparr> nodes := withNode ops i (nodes t) \<rparr>) j = lookup ops t j"
  by (simp add: lookup_def withNode_map_of split: option.splits)

subsection \<open>The loops of the summary handler\<close>

lemma summaryLoop_eq:
  assumes ctor: "\<And>i. nodeId (newTopologyNode ops i) = i"
  shows "keyed (nodes t) \<Longrightarrow>
    \<exists>ns. summaryLoop ops ss ids found t
            = (ids @ map fst (filter (\<lambda>(i, v). version (lookup ops t i) < v) ss),
               found \<union> fst ` set ss, t\<lparr> nodes := ns \<rparr>)
          \<and> keyed ns
          \<and> (\<forall>k. map_of ns k =
                (case map_of (nodes t) k of
                   Some n \<Rightarrow> Some n
                 | None \<Rightarrow> if k \<in> fst ` set ss then Some (newTopologyNode ops k) else None))"
proof (induction ss arbitrary: ids found t)
  case Nil
  show ?case
    by (rule exI [of _ "nodes t"]) (use Nil in \<open>simp split: option.splits\<close>)
next
  case (Cons x ss)
  obtain i v where x: "x = (i, v)" by (cases x)
  let ?t1 = "t\<lparr> nodes := withNode ops i (nodes t) \<rparr>"
  let ?ids1 = "if version (lookup ops t i) < v then ids @ [i] else ids"
  have k1: "keyed (nodes ?t1)" using withNode_keyed [OF ctor Cons.prems] by simp
  from Cons.IH [OF k1, of ?ids1 "insert i found"] obtain ns where
    ns: "summaryLoop ops ss ?ids1 (insert i found) ?t1
            = (?ids1 @ map fst (filter (\<lambda>(i, v). version (lookup ops ?t1 i) < v) ss),
               insert i found \<union> fst ` set ss, ?t1\<lparr> nodes := ns \<rparr>)"
    and kn: "keyed ns"
    and mn: "\<forall>k. map_of ns k =
                (case map_of (nodes ?t1) k of
                   Some n \<Rightarrow> Some n
                 | None \<Rightarrow> if k \<in> fst ` set ss then Some (newTopologyNode ops k) else None)"
    by blast
  have "summaryLoop ops (x # ss) ids found t
      = (ids @ map fst (filter (\<lambda>(i, v). version (lookup ops t i) < v) (x # ss)),
         found \<union> fst ` set (x # ss), t\<lparr> nodes := ns \<rparr>)"
    unfolding x by (simp add: getOrCreate_eq ns lookup_withNode)
  moreover have "\<forall>k. map_of ns k =
      (case map_of (nodes t) k of
         Some n \<Rightarrow> Some n
       | None \<Rightarrow> if k \<in> fst ` set (x # ss) then Some (newTopologyNode ops k) else None)"
    using mn unfolding x
    by (auto simp: withNode_map_of split: option.splits)
  ultimately show ?case using kn by blast
qed

lemma removalLoop_map_of:
  "keyed m \<Longrightarrow>
   map_of (snd (removalLoop ops p sk found tr m)) k
     = map_option
         (\<lambda>n. if k \<noteq> sk \<and> k \<notin> found \<and> map_of tr k = None
              then snd (removeRouting ops p n) else n)
         (map_of m k)"
proof (induction m)
  case Nil
  show ?case by simp
next
  case (Cons x m)
  obtain j n where x: "x = (j, n)" by (cases x)
  from Cons.prems have kn: "nodeId n = j" and km: "keyed m" by (auto simp: keyed_def x)
  obtain c m' where r: "removalLoop ops p sk found tr m = (c, m')"
    by (cases "removalLoop ops p sk found tr m")
  from Cons.IH [OF km] have "map_of m' k = map_option
         (\<lambda>n. if k \<noteq> sk \<and> k \<notin> found \<and> map_of tr k = None
              then snd (removeRouting ops p n) else n) (map_of m k)"
    by (simp add: r)
  then show ?case
    by (simp add: x kn r split: prod.splits)
qed

lemma queueBroadcast_other:
  "nodes (queueBroadcast t) = nodes t" "sent (queueBroadcast t) = sent t"
  "peers (queueBroadcast t) = peers t" "listeners (queueBroadcast t) = listeners t"
  by (simp_all add: queueBroadcast_def Let_def)

text \<open>
  Claim C7. When the topology handles a \<open>NodeSummary\<close> of a tracked peer (nodes being
  stored under their own ids): the ids to request are the peer's own id, when the local
  version of the peer's node is lower than the \<open>ownVersion\<close> of the message, followed by
  the id of every summary whose local version is lower than the summarised one, the
  local version of an unknown id being that of a new node; a \<open>NodeRequest\<close> with these
  ids is sent to the peer if and only if there is such an id; \<open>removeRouting(peer)\<close> is
  applied to exactly the nodes known before that are not \<open>self\<close>, are not listed in the
  summary and are not nodes of tracked peers, and the nodes created for listed ids are
  new nodes.
\<close>

theorem node_summary_requests:
  fixes ops :: "'r TopologyNodeOps" and t :: "'r Topology"
    and p :: Peer and message :: NodeSummaryMessage
  assumes ctor: "\<And>i. nodeId (newTopologyNode ops i) = i"
    and keyed: "keyed (nodes t)"
    and tracked: "map_of (peers t) (remoteId p) \<noteq> None"
  defines "t' \<equiv> handleNodeSummaryMessage ops p message t"
  defines "localVersion \<equiv> \<lambda>i. version (fst (getOrCreate ops i t))"
  defines "ids \<equiv> (if localVersion (remoteId p) < ownVersion message then [remoteId p] else [])
                  @ map fst (filter (\<lambda>(i, v). localVersion i < v) (summaries message))"
  shows "sent t' = sent t @ (if ids = [] then [] else [(peerRef p, NodeRequestFrame ids)])
     \<and> (\<forall>k. map_of (nodes t') k =
          (case map_of (nodes t) k of
             Some n \<Rightarrow>
               Some (if k \<noteq> self t \<and> k \<notin> fst ` set (summaries message) \<and> map_of (peers t) k = None
                     then snd (removeRouting ops p n) else n)
           | None \<Rightarrow>
               if k = remoteId p \<or> k \<in> fst ` set (summaries message)
               then Some (newTopologyNode ops k) else None))
     \<and> peers t' = peers t \<and> listeners t' = listeners t"
proof -
  let ?t1 = "t\<lparr> nodes := withNode ops (remoteId p) (nodes t) \<rparr>"
  have lv: "localVersion = (\<lambda>i. version (lookup ops t i))"
    by (simp add: localVersion_def getOrCreate_eq)
  have g: "getOrCreate ops (remoteId p) t = (lookup ops t (remoteId p), ?t1)"
    by (rule getOrCreate_eq)
  have k1: "keyed (nodes ?t1)" using withNode_keyed [OF ctor keyed] by simp
  have pid: "nodeId (lookup ops t (remoteId p)) = remoteId p"
    using keyed_map_of [OF keyed] ctor by (simp add: lookup_def split: option.splits)
  define ids0 where
    "ids0 = (if version (lookup ops t (remoteId p)) < ownVersion message then [remoteId p] else [])"
  let ?found = "{remoteId p} \<union> fst ` set (summaries message)"
  from summaryLoop_eq [OF ctor k1, of "summaries message" ids0 "{remoteId p}"] obtain ns where
    sl: "summaryLoop ops (summaries message) ids0 {remoteId p} ?t1
            = (ids0 @ map fst (filter (\<lambda>(i, v). version (lookup ops ?t1 i) < v) (summaries message)),
               ?found, ?t1\<lparr> nodes := ns \<rparr>)"
    and kn: "keyed ns"
    and mn: "\<forall>k. map_of ns k =
                (case map_of (nodes ?t1) k of
                   Some n \<Rightarrow> Some n
                 | None \<Rightarrow> if k \<in> fst ` set (summaries message)
                     then Some (newTopologyNode ops k) else None)"
    by blast
  have ids: "ids0 @ map fst (filter (\<lambda>(i, v). version (lookup ops ?t1 i) < v) (summaries message)) = ids"
    by (simp add: ids_def ids0_def lv lookup_withNode)
  let ?r = "removalLoop ops p (self t) ?found (peers t) ns"
  let ?t3 = "t\<lparr> nodes := snd ?r \<rparr>"
  let ?t4 = "if fst ?r then queueBroadcast ?t3 else ?t3"
  have step: "t' =
     (let (idsToRequest, found, t2) = summaryLoop ops (summaries message) ids0 {remoteId p} ?t1;
          (didChangeRouting, nodes') = removalLoop ops p (self t2) found (peers t2) (nodes t2);
          t3 = t2\<lparr> nodes := nodes' \<rparr>;
          t4 = (if didChangeRouting then queueBroadcast t3 else t3)
      in if length idsToRequest = 0 then t4
         else t4\<lparr> sent := sent t4 @ [(peerRef p, NodeRequestFrame idsToRequest)] \<rparr>)"
    unfolding t'_def handleNodeSummaryMessage_def g
    by (simp add: pid ids0_def Let_def)
  have t': "t' = (if length ids = 0 then ?t4
      else ?t4\<lparr> sent := sent ?t4 @ [(peerRef p, NodeRequestFrame ids)] \<rparr>)"
    unfolding step sl ids
    by (cases ?r) (simp add: Let_def)
  have f4: "sent ?t4 = sent t" "nodes ?t4 = snd ?r" "peers ?t4 = peers t" "listeners ?t4 = listeners t"
    by (simp_all add: queueBroadcast_other)
  have A: "sent t' = sent t @ (if ids = [] then [] else [(peerRef p, NodeRequestFrame ids)])"
    unfolding t' using f4(1) by simp
  have n': "nodes t' = snd ?r" unfolding t' using f4(2) by simp
  have B: "map_of (nodes t') k =
          (case map_of (nodes t) k of
             Some n \<Rightarrow>
               Some (if k \<noteq> self t \<and> k \<notin> fst ` set (summaries message) \<and> map_of (peers t) k = None
                     then snd (removeRouting ops p n) else n)
           | None \<Rightarrow>
               if k = remoteId p \<or> k \<in> fst ` set (summaries message)
               then Some (newTopologyNode ops k) else None)" for k
  proof -
    have "map_of (nodes t') k = map_option
         (\<lambda>n. if k \<noteq> self t \<and> k \<notin> ?found \<and> map_of (peers t) k = None
              then snd (removeRouting ops p n) else n) (map_of ns k)"
      unfolding n' by (rule removalLoop_map_of [OF kn])
    also have "\<dots> = (case map_of (nodes t) k of
             Some n \<Rightarrow>
               Some (if k \<noteq> self t \<and> k \<notin> fst ` set (summaries message) \<and> map_of (peers t) k = None
                     then snd (removeRouting ops p n) else n)
           | None \<Rightarrow>
               if k = remoteId p \<or> k \<in> fst ` set (summaries message)
               then Some (newTopologyNode ops k) else None)"
      using mn tracked
      by (auto simp: withNode_map_of split: option.splits)
    finally show ?thesis .
  qed
  have C: "peers t' = peers t" "listeners t' = listeners t"
    unfolding t' using f4(3,4) by simp_all
  from A B C show ?thesis by blast
qed


lemmas topology_eval = new_Topology_def addPeer_def subscribe_def unsubscribe_def getOrCreate_def
  queueBroadcast_def updateSelfNode_def handleNodeSummaryMessage_def topologyHandleDisconnect_def
  exampleOps_def exampleParent_def Let_def

lemma exampleTopology_eq:
  "exampleTopology =
     \<lparr> endpoint = False, self = [1],
       nodes = [([1], \<lparr> nodeId = [1], version = 2, direct = True, routes = () \<rparr>),
                ([2], \<lparr> nodeId = [2], version = 0, direct = True, routes = () \<rparr>),
                ([3], \<lparr> nodeId = [3], version = 0, direct = True, routes = () \<rparr>),
                ([4], \<lparr> nodeId = [4], version = 0, direct = False, routes = () \<rparr>),
                ([5], \<lparr> nodeId = [5], version = 0, direct = False, routes = () \<rparr>)],
       peers = [([2], \<lparr> peer = Peer 1 [2], subscriptions = [0, 1], peerNodes = [] \<rparr>),
                ([3], \<lparr> peer = Peer 2 [3], subscriptions = [2, 3], peerNodes = [] \<rparr>)],
       broadcastTimeout = Some 0, routingDirty = True,
       listeners = [(0, 1, OnData), (1, 1, OnDisconnect), (2, 2, OnData), (3, 2, OnDisconnect)],
       nextListener = 4, scheduled = {0}, nextScheduled = 1, sent = [] \<rparr>"
  by (simp add: exampleTopology_def topology_eval)

theorem node_summary_requests_witness:
  "keyed (nodes exampleTopology)
   \<and> map_of (peers exampleTopology) (remoteId (Peer 1 [2])) \<noteq> None
   \<and> sent (handleNodeSummaryMessage exampleOps (Peer 1 [2]) exampleSummary exampleTopology)
       = [(1, NodeRequestFrame [[2], [6]])]
   \<and> map_of (nodes (handleNodeSummaryMessage exampleOps (Peer 1 [2]) exampleSummary exampleTopology)) [5]
       = Some \<lparr> nodeId = [5], version = 100, direct = False, routes = () \<rparr>
   \<and> map_of (nodes (handleNodeSummaryMessage exampleOps (Peer 1 [2]) exampleSummary exampleTopology)) [3]
       = Some \<lparr> nodeId = [3], version = 0, direct = True, routes = () \<rparr>
   \<and> map_of (nodes (handleNodeSummaryMessage exampleOps (Peer 1 [2]) exampleSummary exampleTopology)) [6]
       = Some \<lparr> nodeId = [6], version = 0, direct = False, routes = () \<rparr>"
proof -
  have c: "\<And>i. nodeId (newTopologyNode exampleOps i) = i" by (simp add: exampleOps_def)
  have k: "keyed (nodes exampleTopology)" by (simp add: exampleTopology_eq keyed_def)
  have t: "map_of (peers exampleTopology) (remoteId (Peer 1 [2])) \<noteq> None"
    by (simp add: exampleTopology_eq)
  note th = node_summary_requests [OF c k t, of exampleSummary]
  have l: "version (fst (getOrCreate exampleOps [2] exampleTopology)) = 0"
     "version (fst (getOrCreate exampleOps [4] exampleTopology)) = 0"
     "version (fst (getOrCreate exampleOps [6] exampleTopology)) = 0"
     "version (fst (getOrCreate exampleOps [1] exampleTopology)) = 2"
    by (simp_all add: exampleTopology_eq getOrCreate_def exampleOps_def Let_def)
  from th [THEN conjunct1]
  have s: "sent (handleNodeSummaryMessage exampleOps (Peer 1 [2]) exampleSummary exampleTopology)
       = [(1, NodeRequestFrame [[2], [6]])]"
    by (simp add: exampleSummary_def l) (simp add: exampleTopology_eq)
  from th [THEN conjunct2, THEN conjunct1]
  have n: "map_of (nodes (handleNodeSummaryMessage exampleOps (Peer 1 [2]) exampleSummary exampleTopology)) [5]
       = Some \<lparr> nodeId = [5], version = 100, direct = False, routes = () \<rparr>"
    "map_of (nodes (handleNodeSummaryMessage exampleOps (Peer 1 [2]) exampleSummary exampleTopology)) [3]
       = Some \<lparr> nodeId = [3], version = 0, direct = True, routes = () \<rparr>"
    "map_of (nodes (handleNodeSummaryMessage exampleOps (Peer 1 [2]) exampleSummary exampleTopology)) [6]
       = Some \<lparr> nodeId = [6], version = 0, direct = False, routes = () \<rparr>"
    by (simp_all add: exampleSummary_def exampleTopology_eq exampleOps_def)
  from k t s n show ?thesis by blast
qed

subsection \<open>A second peer with a tracked id\<close>

text \<open>
  Claim C9. When a peer with the same id is already tracked, \<open>addPeer\<close> returns the
  topology as it is: the peers, the nodes (\<open>self\<close> and its version among them), the
  scheduled broadcast and the event subscriptions are those before the call.
\<close>

theorem addPeer_tracked_ignored:
  assumes "map_of (peers t) (remoteId p) \<noteq> None"
  shows "addPeer ops p t = t
     \<and> peers (addPeer ops p t) = peers t
     \<and> nodes (addPeer ops p t) = nodes t
     \<and> broadcastTimeout (addPeer ops p t) = broadcastTimeout t
     \<and> scheduled (addPeer ops p t) = scheduled t
     \<and> listeners (addPeer ops p t) = listeners t"
  using assms by (auto simp: addPeer_def)

theorem addPeer_tracked_ignored_witness:
  "map_of (peers exampleTopology) (remoteId (Peer 7 [2])) \<noteq> None
   \<and> addPeer exampleOps (Peer 7 [2]) exampleTopology = exampleTopology
   \<and> listeners (addPeer exampleOps (Peer 7 [2]) exampleTopology)
       = [(0, 1, OnData), (1, 1, OnDisconnect), (2, 2, OnData), (3, 2, OnDisconnect)]"
proof -
  have t: "map_of (peers exampleTopology) (remoteId (Peer 7 [2])) \<noteq> None"
    by (simp add: exampleTopology_eq)
  from addPeer_tracked_ignored [OF t, of exampleOps] t show ?thesis
    by (simp add: exampleTopology_eq)
qed

section \<open>Disconnect of a peer: properties\<close>

lemma unsubscribeAll_fields:
  "listeners (unsubscribeAll hs t) = filter (\<lambda>x. fst x \<notin> set hs) (listeners t)"
  "peers (unsubscribeAll hs t) = peers t"
  by (induction hs arbitrary: t) (auto simp: unsubscribe_def intro: filter_cong)

lemma forgetLoop_fields:
  "listeners (forgetLoop ops p is t) = listeners t"
  "peers (forgetLoop ops p is t) = peers t"
  by (induction "is" arbitrary: t) (auto split: option.splits)

lemma updateSelfNode_fields:
  "listeners (updateSelfNode ops t) = listeners t"
  "peers (updateSelfNode ops t) = peers t"
  by (simp_all add: updateSelfNode_def split: option.splits)

lemma topologyHandleDisconnect_tracked:
  assumes "map_of (peers t) (remoteId p) = Some info"
  shows "peers (topologyHandleDisconnect ops p t) = mapDelete (remoteId p) (peers t)"
    and "listeners (topologyHandleDisconnect ops p t)
           = filter (\<lambda>x. fst x \<notin> set (subscriptions info)) (listeners t)"
  using assms
  by (simp_all add: topologyHandleDisconnect_def getOrCreate_eq queueBroadcast_other
        updateSelfNode_fields forgetLoop_fields unsubscribeAll_fields Let_def)

lemma clearTimer_eq: "clearTimer h s = s\<lparr> timers := timers s - set_option h \<rparr>"
  by (cases h) (simp_all add: clearTimer_def)

lemma handleDisconnect_eq:
  "handleDisconnect reason err s =
     s\<lparr> timers := timers s - set_option (helloTimeout s) - set_option (pingSender s)
                     - set_option (pingChecker s),
        state := Initial,
        effects := effects s @ (if state s = Active then [DisconnectEvent] else []) \<rparr>"
  by (simp add: handleDisconnect_def clearTimer_eq emit_def Let_def)

text \<open>
  Claim C4. A disconnect is to release the three timers of the peer, the subscriptions
  the topology holds for it, and both authentication flows. \<open>handleDisconnect\<close> of the
  peer clears the timers held in its fields, resets the state and emits the event
  (lemma \<open>handleDisconnect_eq\<close>, for every reason and every peer), and the topology
  unsubscribes (lemma \<open>topologyHandleDisconnect_tracked\<close>); the flows are not released.
  A client that waits for the answer to its \<open>Auth\<close> holds the client flow of the
  provider \<open>anonymous\<close>: when it handles a disconnect after a failed negotiation, its
  timer is cleared and its state is \<open>Initial\<close>, but no call is made on the flow and the
  field keeps it. Likewise a server that waits for \<open>AuthData\<close> keeps its server flow
  when the transport fails. The other exit of the negotiation does release the flow:
  on the switch to \<open>Active\<close> the same client flow is destroyed.
\<close>

theorem disconnect_keeps_auth_flow:
  "authClientFlow clientAwaitingAuthAck = Some (AuthClientFlow 1)
   \<and> timers clientAwaitingAuthAck = {2}
   \<and> timers (handleDisconnect NegotiationFailed None clientAwaitingAuthAck) = {}
   \<and> state (handleDisconnect NegotiationFailed None clientAwaitingAuthAck) = Initial
   \<and> effects (handleDisconnect NegotiationFailed None clientAwaitingAuthAck)
       = [Send (SelectFrame [1] {}), CreateClientFlow ''anonymous'', Send (AuthFrame ''anonymous'' [])]
   \<and> authClientFlow (handleDisconnect NegotiationFailed None clientAwaitingAuthAck)
       = Some (AuthClientFlow 1)
   \<and> authServerFlow serverAwaitingAuthData = Some (AuthServerFlow 1)
   \<and> effects (handleDisconnect TransportError (Some (Error ''closed'')) serverAwaitingAuthData)
       = [Send (HelloFrame [1] {}), Send OkFrame, CreateServerFlow ''anonymous'',
          Send (AuthDataFrame [7])]
   \<and> authServerFlow (handleDisconnect TransportError (Some (Error ''closed'')) serverAwaitingAuthData)
       = Some (AuthServerFlow 1)
   \<and> effects activeClient
       = [Send (SelectFrame [1] {}), CreateClientFlow ''anonymous'', Send (AuthFrame ''anonymous'' []),
          DestroyClientFlow (AuthClientFlow 1), ConnectEvent, Send BeginFrame]"
proof -
  have server:
    "state serverAwaitingAuthData = WaitingForAuthData"
    "authServerFlow serverAwaitingAuthData = Some (AuthServerFlow 1)"
    "effects serverAwaitingAuthData
       = [Send (HelloFrame [1] {}), Send OkFrame, CreateServerFlow ''anonymous'',
          Send (AuthDataFrame [7])]"
    by (simp_all add: serverAwaitingAuthData_def serverAwaitingAuth_fields receiveAuth_def
          receiveAuthProvider_def handleSendingAuthReply_def authContext_def
          localPublicSecurity_def remotePublicSecurity_def dataReply_def quiet_def
          exampleParent_def serverOnly_def anonymous_def sharedSecret_def peer_eqs)
  have active:
    "effects activeClient
       = [Send (SelectFrame [1] {}), CreateClientFlow ''anonymous'', Send (AuthFrame ''anonymous'' []),
          DestroyClientFlow (AuthClientFlow 1), ConnectEvent, Send BeginFrame]"
    by (simp add: activeClient_def clientAwaitingAuthAck_fields receiveAuthOk_def
          switchToActive_def peer_prims quiet_def)
  show ?thesis
    by (simp add: handleDisconnect_eq clientAwaitingAuthAck_fields server active)
qed

end
